theory Spec2Isabelle
  imports Complex_Main
begin

section \<open>Errors\<close>

text \<open>
  The exceptions that \<^verbatim>\<open>rnaseqlib/rpkm/rpkm_utils.py\<close> can raise, as values.
  \<open>SystemExit n\<close> is \<^verbatim>\<open>sys.exit(n)\<close>; the others are the interpreter's own
  exceptions (a failed \<^verbatim>\<open>int()\<close> or tuple unpacking, a missing dictionary key, a
  failed \<^verbatim>\<open>assert\<close>, a float division by zero, an integer too large to convert to
  a float, a local variable read before it is assigned).
\<close>

datatype error =
    SystemExit int
  | ValueError
  | KeyError string
  | AssertionError
  | ZeroDivisionError
  | OverflowError
  | UnboundLocalError

section \<open>RpkmCalculator: \<^verbatim>\<open>compute_rpkm\<close>\<close>

text \<open>
  Python floats are IEEE 754 double-precision numbers. A value is a finite double, given
  by the real number it denotes, an infinity, or a NaN. Negative zero is not told apart
  from zero (Python's \<^verbatim>\<open>==\<close> does not tell them apart either, and the division by
  zero below is raised for both).
\<close>

datatype pyfloat = Finite real | PosInf | NegInf | NaN

text \<open>
  Rounding to the nearest double, ties to the even significand. \<open>round_even\<close> rounds
  a real to the nearest integer, a tie going to the even one. A non-zero real \<open>x\<close> with
  \<open>2\<^sup>e \<le> \<bar>x\<bar> < 2\<^sup>e\<^sup>+\<^sup>1\<close> lies among the doubles that are multiples of
  \<open>2\<^sup>e\<^sup>-\<^sup>5\<^sup>2\<close> (53 significant bits), or of \<open>2\<^sup>-\<^sup>1\<^sup>0\<^sup>7\<^sup>4\<close> in the subnormal range; it
  is rounded to the nearest such multiple, and a result of magnitude \<open>2\<^sup>1\<^sup>0\<^sup>2\<^sup>4\<close> or
  more overflows to an infinity.
\<close>

definition round_even :: "real \<Rightarrow> int" where
  "round_even y =
     (let f = \<lfloor>y\<rfloor>; d = y - of_int f
      in if d < 1 / 2 then f else if 1 / 2 < d then f + 1 else if even f then f else f + 1)"

definition binade :: "real \<Rightarrow> int" where
  "binade x = \<lfloor>log 2 \<bar>x\<bar>\<rfloor>"

definition ulp_exp :: "real \<Rightarrow> int" where
  "ulp_exp x = max (binade x - 52) (- 1074)"

definition round_double :: "real \<Rightarrow> pyfloat" where
  "round_double x =
     (if x = 0 then Finite 0
      else
        let q = ulp_exp x;
            r = of_int (round_even (x / 2 powr of_int q)) * 2 powr of_int q
        in if 2 ^ 1024 \<le> r then PosInf
           else if r \<le> - (2 ^ 1024) then NegInf
           else Finite r)"

text \<open>
  The quotient of two floats as the hardware computes it, for a divisor that is not zero:
  the exact quotient, rounded. The cases with an infinity or a NaN are those of IEEE 754.
\<close>

fun fl_div :: "pyfloat \<Rightarrow> pyfloat \<Rightarrow> pyfloat" where
  "fl_div (Finite a) (Finite b) = round_double (a / b)"
| "fl_div PosInf (Finite b) = (if 0 < b then PosInf else NegInf)"
| "fl_div NegInf (Finite b) = (if 0 < b then NegInf else PosInf)"
| "fl_div (Finite a) PosInf = Finite 0"
| "fl_div (Finite a) NegInf = Finite 0"
| "fl_div x y = NaN"

text \<open>
  Python converts an integer operand to a float before the division; an integer that
  does not fit raises \<^verbatim>\<open>OverflowError\<close>. The division itself raises
  \<^verbatim>\<open>ZeroDivisionError\<close> on a zero divisor, after both operands have been converted.
\<close>

definition to_float :: "int \<Rightarrow> error + pyfloat" where
  "to_float i =
     (case round_double (of_int i) of
        Finite r \<Rightarrow> Inr (Finite r)
      | _ \<Rightarrow> Inl OverflowError)"

definition float_div :: "pyfloat \<Rightarrow> pyfloat \<Rightarrow> error + pyfloat" where
  "float_div x y = (if y = Finite 0 then Inl ZeroDivisionError else Inr (fl_div x y))"

definition int_div_float :: "int \<Rightarrow> pyfloat \<Rightarrow> error + pyfloat" where
  "int_div_float i y = (case to_float i of Inl e \<Rightarrow> Inl e | Inr x \<Rightarrow> float_div x y)"

text \<open>
  \<^verbatim>\<open>
  def compute_rpkm(region_count, region_len, num_total_reads):
      region_kb = region_len / float(1e3)
      rpkm_num = (region_count / region_kb)
      num_reads_per_million = num_total_reads / float(1e6)
      rpkm = (rpkm_num / num_reads_per_million)
      return rpkm
  \<close>
  The arguments are Python integers; each of the first three divisions has an integer
  on the left and a float on the right, the last one divides two floats.
\<close>

definition compute_rpkm :: "int \<Rightarrow> int \<Rightarrow> int \<Rightarrow> error + pyfloat" where
  "compute_rpkm region_count region_len num_total_reads =
     (case int_div_float region_len (Finite 1000) of
        Inl e \<Rightarrow> Inl e
      | Inr region_kb \<Rightarrow>
          (case int_div_float region_count region_kb of
             Inl e \<Rightarrow> Inl e
           | Inr rpkm_num \<Rightarrow>
               (case int_div_float num_total_reads (Finite 1000000) of
                  Inl e \<Rightarrow> Inl e
                | Inr num_reads_per_million \<Rightarrow> float_div rpkm_num num_reads_per_million)))"

section \<open>Python string operations\<close>

text \<open>
  Python 2 \<^verbatim>\<open>str\<close> values are byte strings, modelled as \<open>string\<close> (a list of
  \<open>char\<close>, one per byte).
\<close>

definition startswith :: "string \<Rightarrow> string \<Rightarrow> bool" where
  \<comment> \<open>\<^verbatim>\<open>s.startswith(p)\<close>\<close>
  "startswith s p = (take (length p) s = p)"

fun contains :: "string \<Rightarrow> string \<Rightarrow> bool" where
  \<comment> \<open>\<^verbatim>\<open>sub in s\<close>, the substring test\<close>
  "contains sub [] = (sub = [])"
| "contains sub (c # cs) = (startswith (c # cs) sub \<or> contains sub cs)"

text \<open>
  \<^verbatim>\<open>s.split(sep)\<close> for a non-empty separator: the string is cut at the leftmost
  occurrences of \<open>sep\<close>, scanning left to right without overlap; the result is never
  empty. \<open>acc\<close> holds the current piece, reversed. (Python raises \<^verbatim>\<open>ValueError\<close> on an
  empty separator; the source only ever passes the literals \<^verbatim>\<open>"gff:"\<close>, \<^verbatim>\<open>","\<close>,
  \<^verbatim>\<open>":"\<close>, \<^verbatim>\<open>"-"\<close>, \<^verbatim>\<open>"."\<close> and a tab.)
\<close>

fun split_from :: "string \<Rightarrow> string \<Rightarrow> string \<Rightarrow> string list" where
  "split_from sep acc [] = [rev acc]"
| "split_from sep acc (c # cs) =
     (if sep \<noteq> [] \<and> startswith (c # cs) sep
      then rev acc # split_from sep [] (drop (length sep - 1) cs)
      else split_from sep (c # acc) cs)"

definition py_split :: "string \<Rightarrow> string \<Rightarrow> string list" where
  "py_split sep s = split_from sep [] s"

text \<open>
  \<^verbatim>\<open>int(s)\<close> on a string, base 10, as CPython 2 reads it: surrounding whitespace is
  ignored, one sign is allowed, whitespace between the sign and the digits is skipped
  too, and at least one decimal digit must follow; anything else raises
  \<^verbatim>\<open>ValueError\<close> (\<open>None\<close> here). Python integers are unbounded.
\<close>

definition is_space :: "char \<Rightarrow> bool" where
  "is_space c = (c \<in> {CHR '' '', CHR 0x09, CHR 0x0A, CHR 0x0B, CHR 0x0C, CHR 0x0D})"

definition strip :: "string \<Rightarrow> string" where
  "strip s = rev (dropWhile is_space (rev (dropWhile is_space s)))"

definition digit_val :: "char \<Rightarrow> nat option" where
  \<comment> \<open>the position of a character among the ten decimal digits, if it is one\<close>
  "digit_val c =
     (let d = length (takeWhile (\<lambda>x. x \<noteq> c) ''0123456789'')
      in if d < 10 then Some d else None)"

fun digits_val :: "nat \<Rightarrow> string \<Rightarrow> nat option" where
  "digits_val n [] = Some n"
| "digits_val n (c # cs) =
     (case digit_val c of None \<Rightarrow> None | Some d \<Rightarrow> digits_val (10 * n + d) cs)"

definition py_nat :: "string \<Rightarrow> nat option" where
  "py_nat s = (if s = [] then None else digits_val 0 s)"

definition py_int :: "string \<Rightarrow> int option" where
  "py_int s =
     (case strip s of
        [] \<Rightarrow> None
      | c # cs \<Rightarrow>
          if c = CHR ''-'' then map_option (\<lambda>n. - int n) (py_nat (dropWhile is_space cs))
          else if c = CHR ''+'' then map_option int (py_nat (dropWhile is_space cs))
          else map_option int (py_nat (c # cs)))"

text \<open>\<^verbatim>\<open>str(n)\<close> on an integer: its decimal digits, with a minus sign when negative.\<close>

definition digit_char :: "nat \<Rightarrow> char" where
  "digit_char d = ''0123456789'' ! (d mod 10)"

fun str_nat :: "nat \<Rightarrow> string" where
  "str_nat n = (if n < 10 then [digit_char n] else str_nat (n div 10) @ [digit_char n])"

declare str_nat.simps [simp del]

definition py_str :: "int \<Rightarrow> string" where
  "py_str i = (if i < 0 then CHR ''-'' # str_nat (nat (- i)) else str_nat (nat i))"

section \<open>RegionCounter\<close>

text \<open>
  The first loop of \<^verbatim>\<open>output_rpkm_from_gff_aligned_bam\<close>. \<^verbatim>\<open>region_to_count\<close> is a
  \<^verbatim>\<open>defaultdict(int)\<close>: a dictionary, here a map, whose subscript on an absent key
  \<^emph>\<open>stores\<close> \<open>0\<close> under that key and yields it.
\<close>

type_synonym count_table = "string \<rightharpoonup> int"

definition count_of :: "count_table \<Rightarrow> string \<Rightarrow> int" where
  \<comment> \<open>the count a table holds for a key, an absent key counting as zero\<close>
  "count_of tbl k = (case tbl k of None \<Rightarrow> 0 | Some v \<Rightarrow> v)"

definition dd_get :: "count_table \<Rightarrow> string \<Rightarrow> int \<times> count_table" where
  \<comment> \<open>\<^verbatim>\<open>region_to_count[k]\<close> read: the value, and the table after \<^verbatim>\<open>__missing__\<close>\<close>
  "dd_get tbl k = (case tbl k of None \<Rightarrow> (0, tbl(k \<mapsto> 0)) | Some v \<Rightarrow> (v, tbl))"

definition dd_incr :: "count_table \<Rightarrow> string \<Rightarrow> count_table" where
  \<comment> \<open>\<^verbatim>\<open>region_to_count[k] += 1\<close>\<close>
  "dd_incr tbl k = (let (v, tbl') = dd_get tbl k in tbl'(k \<mapsto> v + 1))"

text \<open>
  \<^verbatim>\<open>
  region_chrom, coord_field = region.split(",")[0].split(":")[0:2]
  region_start, region_end = map(int, coord_field.split("-"))
  \<close>
  Both tuple assignments raise \<^verbatim>\<open>ValueError\<close> when the right-hand side does not have
  exactly two items, and so does \<^verbatim>\<open>int\<close> on a field that is not a number.
\<close>

definition parse_region :: "string \<Rightarrow> error + (string \<times> int \<times> int)" where
  "parse_region region =
     (case take 2 (py_split '':'' (hd (py_split '','' region))) of
        [region_chrom, coord_field] \<Rightarrow>
          (case map py_int (py_split ''-'' coord_field) of
             [Some region_start, Some region_end] \<Rightarrow>
               Inr (region_chrom, region_start, region_end)
           | _ \<Rightarrow> Inl ValueError)
      | _ \<Rightarrow> Inl ValueError)"

text \<open>
  \<^verbatim>\<open>
  region_start += 1
  region_str = "%s:%s-%s" %(region_chrom, str(region_start), str(region_end))
  \<close>
\<close>

definition region_str :: "string \<times> int \<times> int \<Rightarrow> string" where
  "region_str r =
     (case r of (region_chrom, region_start, region_end) \<Rightarrow>
        region_chrom @ '':'' @ py_str (region_start + 1) @ ''-'' @ py_str region_end)"

fun count_regions :: "string list \<Rightarrow> count_table \<Rightarrow> error + count_table" where
  \<comment> \<open>\<^verbatim>\<open>for region in parsed_regions\<close>, ending with \<^verbatim>\<open>region_to_count[region_str] += 1\<close>\<close>
  "count_regions [] tbl = Inr tbl"
| "count_regions (region # regions) tbl =
     (case parse_region region of
        Inl e \<Rightarrow> Inl e
      | Inr r \<Rightarrow> count_regions regions (dd_incr tbl (region_str r)))"

text \<open>
  An alignment record, as far as the source reads it: its optional fields, by tag.
  \<^verbatim>\<open>bam_read.opt("YB")\<close> raises \<^verbatim>\<open>KeyError\<close> when the tag is absent, which the
  source catches to skip the record.
\<close>

record alignment_read =
  tags :: "string \<rightharpoonup> string"

definition parsed_regions :: "string \<Rightarrow> string list" where
  \<comment> \<open>\<^verbatim>\<open>gff_aligned_regions.split("gff:")[1:]\<close>\<close>
  "parsed_regions gff_aligned_regions = tl (py_split ''gff:'' gff_aligned_regions)"

fun region_counter :: "alignment_read list \<Rightarrow> count_table \<Rightarrow> error + count_table" where
  \<comment> \<open>\<^verbatim>\<open>for bam_read in bam_file\<close>\<close>
  "region_counter [] tbl = Inr tbl"
| "region_counter (bam_read # rest) tbl =
     (case tags bam_read ''YB'' of
        None \<Rightarrow> region_counter rest tbl
      | Some gff_aligned_regions \<Rightarrow>
          (case count_regions (parsed_regions gff_aligned_regions) tbl of
             Inl e \<Rightarrow> Inl e
           | Inr tbl' \<Rightarrow> region_counter rest tbl'))"

text \<open>
  The shape of the input that the counting pass is written for. A region of a payload is
  a contig name, a 0-based start, an end, and whatever follows the coordinates (nothing,
  or text that starts with a comma or a colon); its text is \<open>contig:start-end\<close>
  followed by that rest. A payload is a preamble followed by the regions, each
  introduced by the marker \<^verbatim>\<open>gff:\<close>. Neither the preamble nor the text of a region
  may contain the marker, and a contig name holds no colon and no comma. The key that
  the counting pass is to increment for a region is \<open>contig:start+1-end\<close>.
\<close>

type_synonym region = "string \<times> nat \<times> nat \<times> string"

definition region_text :: "region \<Rightarrow> string" where
  "region_text r =
     (case r of (chrom, s, e, rest) \<Rightarrow>
        chrom @ '':'' @ py_str (int s) @ ''-'' @ py_str (int e) @ rest)"

definition payload_text :: "string \<Rightarrow> region list \<Rightarrow> string" where
  "payload_text pre rs = pre @ concat (map (\<lambda>r. ''gff:'' @ region_text r) rs)"

definition well_formed_region :: "region \<Rightarrow> bool" where
  "well_formed_region r =
     (case r of (chrom, s, e, rest) \<Rightarrow>
        CHR '':'' \<notin> set chrom \<and> CHR '','' \<notin> set chrom
        \<and> (rest = [] \<or> hd rest = CHR '','' \<or> hd rest = CHR '':'')
        \<and> \<not> contains ''gff:'' (region_text r))"

definition region_key :: "region \<Rightarrow> string" where
  "region_key r =
     (case r of (chrom, s, e, rest) \<Rightarrow>
        chrom @ '':'' @ py_str (int s + 1) @ ''-'' @ py_str (int e))"

text \<open>
  A record of the stream is described either by \<open>None\<close>, when it lacks the \<^verbatim>\<open>YB\<close>
  tag, or by the preamble and the regions of its payload.
\<close>

definition describes :: "alignment_read \<Rightarrow> (string \<times> region list) option \<Rightarrow> bool" where
  "describes bam_read d =
     (case d of
        None \<Rightarrow> tags bam_read ''YB'' = None
      | Some (pre, rs) \<Rightarrow>
          tags bam_read ''YB'' = Some (payload_text pre rs)
          \<and> \<not> contains ''gff:'' pre \<and> list_all well_formed_region rs)"

definition keys_of :: "(string \<times> region list) option \<Rightarrow> string list" where
  "keys_of d = (case d of None \<Rightarrow> [] | Some (pre, rs) \<Rightarrow> map region_key rs)"

section \<open>ExonAggregator\<close>

text \<open>
  The second loop of \<^verbatim>\<open>output_rpkm_from_gff_aligned_bam\<close>. The constitutive-exons
  object is read through three attributes: the interval file's name, the list of genes
  with their exon field (a comma-separated string of exon identifiers, or the
  not-available marker), and the dictionary of exon lengths. (The field for
  \<^verbatim>\<open>const_exons.gff_filename\<close> is named \<open>const_gff_filename\<close>, to keep
  \<open>gff_filename\<close> free for the parameter of \<^verbatim>\<open>map_bam2gff_subproc\<close>.)
\<close>

record gene_info =
  gene_id :: string
  exons :: string

record const_exons =
  const_gff_filename :: string
  genes_to_exons :: "gene_info list"
  exon_lens :: "string \<rightharpoonup> int"

record rpkm_entry =
  entry_rpkm :: pyfloat
  entry_gene_id :: string
  entry_counts :: int
  entry_exons :: string

text \<open>
  \<^verbatim>\<open>
  curr_exon = parsed_exon[0:-2]
  if "." in curr_exon:
      # Strip off dot prefix if any is there
      curr_exon = curr_exon.split(".")[1]
  \<close>
  The slice \<^verbatim>\<open>[0:-2]\<close> of a string shorter than two characters is empty, as is
  \<open>take\<close> with the truncated subtraction. The subscript \<^verbatim>\<open>[1]\<close> is in range whenever
  the string contains the separator (lemma \<open>split_dot_length\<close> below).
\<close>

definition strandless_exon :: "string \<Rightarrow> string" where
  "strandless_exon parsed_exon =
     (let curr_exon = take (length parsed_exon - 2) parsed_exon
      in if contains ''.'' curr_exon then py_split ''.'' curr_exon ! 1 else curr_exon)"

fun lookup_counts :: "string list \<Rightarrow> count_table \<Rightarrow> int list \<times> count_table" where
  \<comment> \<open>\<^verbatim>\<open>[region_to_count[s_exon] for s_exon in strandless_exons]\<close>\<close>
  "lookup_counts [] tbl = ([], tbl)"
| "lookup_counts (s_exon # rest) tbl =
     (let (v, tbl1) = dd_get tbl s_exon;
          (vs, tbl2) = lookup_counts rest tbl1
      in (v # vs, tbl2))"

fun lookup_lens :: "(string \<rightharpoonup> int) \<Rightarrow> string list \<Rightarrow> error + int list" where
  \<comment> \<open>\<^verbatim>\<open>[const_exons.exon_lens[exon] for exon in parsed_exons]\<close>, a plain dictionary\<close>
  "lookup_lens lens [] = Inr []"
| "lookup_lens lens (exon # rest) =
     (case lens exon of
        None \<Rightarrow> Inl (KeyError exon)
      | Some l \<Rightarrow>
          (case lookup_lens lens rest of Inl e \<Rightarrow> Inl e | Inr ls \<Rightarrow> Inr (l # ls)))"

definition assert_same_length :: "int list \<Rightarrow> int list \<Rightarrow> error + unit" where
  \<comment> \<open>\<^verbatim>\<open>assert(len(curr_counts) == len(curr_lens)), "Error: ..."\<close>\<close>
  "assert_same_length curr_counts curr_lens =
     (if length curr_counts = length curr_lens then Inr () else Inl AssertionError)"

text \<open>
  The state of the aggregation loop: the count table (which the subscripts may extend),
  the rows appended to \<^verbatim>\<open>rpkm_table\<close>, and, as a trace, the argument triples of every
  call of \<^verbatim>\<open>compute_rpkm\<close> made so far.
\<close>

record agg_state =
  table :: count_table
  rpkm_table :: "rpkm_entry list"
  rpkm_calls :: "(int \<times> int \<times> int) list"

text \<open>
  The end of the loop body, from the assertion on, as a function of the two lists that
  were looked up:
  \<^verbatim>\<open>
  assert(len(curr_counts) == len(curr_lens)), "Error: ..."
  gene_rpkm = compute_rpkm(sum_counts, sum_lens, num_mapped)
  rpkm_entry = {"rpkm": gene_rpkm, "gene_id": gene_id, "counts": sum_counts, "exons": exons}
  rpkm_table.append(rpkm_entry)
  \<close>
\<close>

definition append_rpkm_entry ::
  "int \<Rightarrow> gene_info \<Rightarrow> int list \<Rightarrow> int list \<Rightarrow> agg_state \<Rightarrow> error option \<times> agg_state" where
  "append_rpkm_entry num_mapped gi curr_counts curr_lens st1 =
     (let sum_counts = sum_list curr_counts;
          sum_lens = sum_list curr_lens
      in case assert_same_length curr_counts curr_lens of
           Inl e \<Rightarrow> (Some e, st1)
         | Inr _ \<Rightarrow>
             let st2 = st1\<lparr>rpkm_calls :=
                         rpkm_calls st1 @ [(sum_counts, sum_lens, num_mapped)]\<rparr>
             in (case compute_rpkm sum_counts sum_lens num_mapped of
                   Inl e \<Rightarrow> (Some e, st2)
                 | Inr gene_rpkm \<Rightarrow>
                     (None, st2\<lparr>rpkm_table := rpkm_table st2 @
                        [\<lparr>entry_rpkm = gene_rpkm, entry_gene_id = gene_id gi,
                          entry_counts = sum_counts, entry_exons = exons gi\<rparr>]\<rparr>)))"

text \<open>
  The loop body for one gene whose exon field is not the not-available marker: the count
  lookups, the length lookups (which raise \<^verbatim>\<open>KeyError\<close> on an identifier the length
  table lacks), then the rest.
\<close>

definition process_gene ::
  "(string \<rightharpoonup> int) \<Rightarrow> int \<Rightarrow> gene_info \<Rightarrow> agg_state \<Rightarrow> error option \<times> agg_state" where
  "process_gene lens num_mapped gi st =
     (let parsed_exons = py_split '','' (exons gi);
          strandless_exons = map strandless_exon parsed_exons;
          (curr_counts, tbl') = lookup_counts strandless_exons (table st);
          st1 = st\<lparr>table := tbl'\<rparr>
      in case lookup_lens lens parsed_exons of
           Inl e \<Rightarrow> (Some e, st1)
         | Inr curr_lens \<Rightarrow> append_rpkm_entry num_mapped gi curr_counts curr_lens st1)"

fun aggregate ::
  "string \<Rightarrow> (string \<rightharpoonup> int) \<Rightarrow> int \<Rightarrow> gene_info list \<Rightarrow> agg_state
     \<Rightarrow> error option \<times> agg_state" where
  \<comment> \<open>\<^verbatim>\<open>for gene_info in const_exons.genes_to_exons\<close>; \<open>None\<close>: the loop ran to its end\<close>
  "aggregate na_val lens num_mapped [] st = (None, st)"
| "aggregate na_val lens num_mapped (gi # rest) st =
     (if exons gi = na_val then aggregate na_val lens num_mapped rest st
      else case process_gene lens num_mapped gi st of
             (Some e, st') \<Rightarrow> (Some e, st')
           | (None, st') \<Rightarrow> aggregate na_val lens num_mapped rest st')"

text \<open>
  What the specification says the normalisation is, in its own words: strip the last two
  characters, then, if the remainder contains the separator, take the portion after the
  first separator. It is here only to be compared with \<open>strandless_exon\<close>.
\<close>

definition spec_normalize :: "string \<Rightarrow> string" where
  "spec_normalize parsed_exon =
     (let curr_exon = take (length parsed_exon - 2) parsed_exon
      in if CHR ''.'' \<in> set curr_exon
         then tl (dropWhile (\<lambda>c. c \<noteq> CHR ''.'') curr_exon)
         else curr_exon)"

text \<open>
  The keys that the aggregation loop looks up in the count table: the normalised exon
  identifiers of every gene whose exon field is not the not-available marker.
\<close>

fun looked_up :: "string \<Rightarrow> gene_info list \<Rightarrow> string set" where
  "looked_up na_val [] = {}"
| "looked_up na_val (gi # rest) =
     (if exons gi = na_val then looked_up na_val rest
      else set (map strandless_exon (py_split '','' (exons gi))) \<union> looked_up na_val rest)"

section \<open>Files, subprocesses and the log\<close>

text \<open>
  The part of the machine that the pipeline reads and changes: which paths are
  directories, which are regular files, the shell commands started with
  \<^verbatim>\<open>subprocess.Popen\<close> so far, the records handed to the logger, the rows of the RPKM
  tables written so far, by file name, and a trace of the argument triples of every call
  of \<^verbatim>\<open>compute_rpkm\<close>. Text printed to the standard output is not part of the model.
  Failures of the operating system itself (permissions, a full disk, a broken pipe) are
  outside the model: \<^verbatim>\<open>os.makedirs\<close> and the writes to the encoder's pipe are
  modelled as succeeding.
\<close>

datatype level = INFO | WARNING | ERROR | CRITICAL

record sys_state =
  dirs :: "string set"
  files :: "string set"
  launched :: "string list"
  logged :: "(level \<times> string) list"
  rpkm_files :: "string \<rightharpoonup> rpkm_entry list"
  compute_rpkm_calls :: "(int \<times> int \<times> int) list"

text \<open>
  What the collaborators outside this file answer. \<open>which\<close> tells whether
  \<^verbatim>\<open>utils.which\<close> finds a program on the execution path; \<open>make_dir\<close> is
  \<^verbatim>\<open>utils.make_dir\<close>, which may add directories; \<open>tagBam_stdout\<close> and
  \<open>tagBam_wait\<close> give the lines and the exit code of the tagging command;
  \<open>bam_communicate\<close> gives, for the encoder command and the lines written to its
  standard input, its exit code, its collected output text, and whether it left the file
  named after \<^verbatim>\<open>-o\<close> behind; \<open>read_bam\<close> is \<^verbatim>\<open>pysam.Samfile\<close> opened and iterated.
\<close>

record proc_result =
  returncode :: int
  output_text :: string
  wrote_file :: bool

record world =
  which :: "string \<Rightarrow> bool"
  make_dir :: "string \<Rightarrow> string set \<Rightarrow> string set"
  tagBam_stdout :: "string \<Rightarrow> string list"
  tagBam_wait :: "string \<Rightarrow> int"
  bam_communicate :: "string \<Rightarrow> string list \<Rightarrow> proc_result"
  read_bam :: "string \<Rightarrow> error + alignment_read list"

definition log_msg :: "level \<Rightarrow> string \<Rightarrow> sys_state \<Rightarrow> sys_state" where
  "log_msg lvl msg s = s\<lparr>logged := logged s @ [(lvl, msg)]\<rparr>"

definition popen :: "string \<Rightarrow> sys_state \<Rightarrow> sys_state" where
  "popen cmd s = s\<lparr>launched := launched s @ [cmd]\<rparr>"

definition isdir :: "sys_state \<Rightarrow> string \<Rightarrow> bool" where
  "isdir s p = (p \<in> dirs s)"

definition isfile :: "sys_state \<Rightarrow> string \<Rightarrow> bool" where
  "isfile s p = (p \<in> files s)"

definition basename :: "string \<Rightarrow> string" where
  \<comment> \<open>\<^verbatim>\<open>os.path.basename\<close>: what follows the last slash\<close>
  "basename p = rev (takeWhile (\<lambda>c. c \<noteq> CHR ''/'') (rev p))"

definition path_join :: "string \<Rightarrow> string \<Rightarrow> string" where
  \<comment> \<open>\<^verbatim>\<open>os.path.join\<close> of two components\<close>
  "path_join a b =
     (if startswith b ''/'' then b
      else if a = [] \<or> last a = CHR ''/'' then a @ b
      else a @ ''/'' @ b)"

definition leading_dirs :: "string \<Rightarrow> string list" where
  \<comment> \<open>the proper prefixes of a path that end just before a slash\<close>
  "leading_dirs p = [take i p. i \<leftarrow> [1..<length p], p ! i = CHR ''/'']"

definition makedirs :: "string \<Rightarrow> sys_state \<Rightarrow> sys_state" where
  \<comment> \<open>\<^verbatim>\<open>os.makedirs\<close>: the directory and the leading directories of its path\<close>
  "makedirs p s = s\<lparr>dirs := dirs s \<union> set (leading_dirs p) \<union> {p}\<rparr>"

section \<open>IntervalTagger: \<^verbatim>\<open>map_bam2gff_subproc\<close>\<close>

definition bam2gff_dir :: "string \<Rightarrow> string \<Rightarrow> string" where
  \<comment> \<open>\<^verbatim>\<open>os.path.join(output_dir, "bam2gff_%s" %(gff_basename))\<close>\<close>
  "bam2gff_dir output_dir gff_filename =
     path_join output_dir (''bam2gff_'' @ basename gff_filename)"

definition bam2gff_output :: "string \<Rightarrow> string \<Rightarrow> string \<Rightarrow> string" where
  \<comment> \<open>\<^verbatim>\<open>output_filename = os.path.join(output_dir, bam_basename)\<close>\<close>
  "bam2gff_output output_dir gff_filename bam_filename =
     path_join (bam2gff_dir output_dir gff_filename) (basename bam_filename)"

definition tagBam_cmd :: "string \<Rightarrow> string \<Rightarrow> string \<Rightarrow> string" where
  "tagBam_cmd bam_filename gff_filename interval_label =
     ''tagBam -i '' @ bam_filename @ '' -files '' @ gff_filename @ '' -labels ''
       @ interval_label @ '' -intervals -f 1 | samtools view -h - ''"

definition bam_cmd :: "string \<Rightarrow> string" where
  "bam_cmd output_filename = ''samtools view -Shb -o '' @ output_filename @ '' - ''"

text \<open>
  The loop over the tagging tool's output. Its state: the lines written to the encoder's
  standard input, in order, and the three counters.
  \<^verbatim>\<open>
  for sam_read in tagBam_proc.stdout:
      sam_fields = sam_read.split("\t")
      read_name = sam_fields[0]
      if read_name == "":
          num_skipped_reads += 1
          continue
      gff_interval = ":%s:" %(interval_label)
      if sam_read.startswith("@"):
          bam_proc.stdin.write(sam_read)
          num_headers += 1
      elif gff_interval in sam_read:
          bam_proc.stdin.write(sam_read)
          num_hits += 1
  \<close>
\<close>

record relay_state =
  forwarded :: "string list"
  num_headers :: nat
  num_hits :: nat
  num_skipped_reads :: nat

definition relay_line :: "string \<Rightarrow> string \<Rightarrow> relay_state \<Rightarrow> relay_state" where
  "relay_line interval_label sam_read r =
     (let sam_fields = py_split [CHR 0x09] sam_read;
          read_name = hd sam_fields
      in if read_name = [] then r\<lparr>num_skipped_reads := num_skipped_reads r + 1\<rparr>
         else
           let gff_interval = '':'' @ interval_label @ '':''
           in if startswith sam_read ''@''
              then r\<lparr>forwarded := forwarded r @ [sam_read], num_headers := num_headers r + 1\<rparr>
              else if contains gff_interval sam_read
              then r\<lparr>forwarded := forwarded r @ [sam_read], num_hits := num_hits r + 1\<rparr>
              else r)"

fun relay_lines :: "string \<Rightarrow> string list \<Rightarrow> relay_state \<Rightarrow> relay_state" where
  "relay_lines interval_label [] r = r"
| "relay_lines interval_label (sam_read # rest) r =
     relay_lines interval_label rest (relay_line interval_label sam_read r)"

definition relay :: "string \<Rightarrow> string list \<Rightarrow> relay_state" where
  "relay interval_label lines =
     relay_lines interval_label lines
       \<lparr>forwarded = [], num_headers = 0, num_hits = 0, num_skipped_reads = 0\<rparr>"

definition no_hits_warning :: "nat \<Rightarrow> string" where
  "no_hits_warning n =
     ''tagBam did not yield hits in GFF intervals. Found '' @ py_str (int n)
       @ '' headers in BAM file. Do your headers in the GFF file match the headers of the BAM?''"

definition truncated_warning :: string where
  "truncated_warning =
     ''Truncated BAM file produced by tagBam. This occurs if the BAM is empty because no read matched the GFF intervals.''"

text \<open>
  The function itself. In the branch for \<^verbatim>\<open>num_headers == 0\<close> the source logs
  \<^verbatim>\<open>"tagBam call failed."\<close> and then formats a second message from
  \<^verbatim>\<open>tagBam_retval\<close>, a local variable that is only assigned further down
  (\<^verbatim>\<open>tagBam_retval = tagBam_proc.wait()\<close>): evaluating it raises
  \<^verbatim>\<open>UnboundLocalError\<close>, so the \<^verbatim>\<open>sys.exit(1)\<close> after it is never reached.
\<close>

definition map_bam2gff_subproc ::
  "world \<Rightarrow> string \<Rightarrow> string \<Rightarrow> string \<Rightarrow> string \<Rightarrow> sys_state
     \<Rightarrow> (error + string) \<times> sys_state" where
  "map_bam2gff_subproc w bam_filename gff_filename output_dir interval_label s =
     (let out_dir = bam2gff_dir output_dir gff_filename;
          s1 = (if \<not> isdir s out_dir then makedirs out_dir s else s);
          output_filename = bam2gff_output output_dir gff_filename bam_filename
      in if isfile s1 output_filename then (Inr output_filename, s1)
         else if \<not> which w ''tagBam''
         then (Inl (SystemExit 1), log_msg ERROR ''Aborting operation: tagBam not found.'' s1)
         else
           let tag_cmd = tagBam_cmd bam_filename gff_filename interval_label;
               s2 = popen tag_cmd s1;
               s3 = popen (bam_cmd output_filename) s2;
               r = relay interval_label (tagBam_stdout w tag_cmd)
           in if num_headers r = 0
              then (Inl UnboundLocalError, log_msg ERROR ''tagBam call failed.'' s3)
              else
                let s4 = (if num_hits r = 0
                          then log_msg WARNING (no_hits_warning (num_headers r)) s3 else s3);
                    tagBam_retval = tagBam_wait w tag_cmd;
                    bam_results = bam_communicate w (bam_cmd output_filename) (forwarded r);
                    s5 = (if wrote_file bam_results
                          then s4\<lparr>files := insert output_filename (files s4)\<rparr> else s4)
                in if returncode bam_results \<noteq> 0
                   then if contains ''truncated'' (output_text bam_results)
                        then (Inr output_filename, log_msg WARNING truncated_warning s5)
                        else (Inl (SystemExit 1),
                              log_msg ERROR (''Output was '' @ output_text bam_results)
                                (log_msg ERROR ''Conversion of tagBam hits to BAM failed.'' s5))
                   else (Inr output_filename, s5))"

section \<open>The driver: \<^verbatim>\<open>output_rpkm\<close>\<close>

text \<open>
  The rest of \<^verbatim>\<open>output_rpkm_from_gff_aligned_bam\<close>: it opens and reads the tagged
  alignment file, counts, aggregates, and writes the table. The rows written are kept in
  \<open>rpkm_files\<close> under the output file's name, and the calls of \<^verbatim>\<open>compute_rpkm\<close>
  made by the aggregation are appended to the trace, also when the function raises.
\<close>

definition output_rpkm_from_gff_aligned_bam ::
  "world \<Rightarrow> string \<Rightarrow> int \<Rightarrow> string \<Rightarrow> const_exons \<Rightarrow> string \<Rightarrow> string \<Rightarrow> sys_state
     \<Rightarrow> (error + string) \<times> sys_state" where
  "output_rpkm_from_gff_aligned_bam w bam_filename num_mapped read_len ce output_filename
       na_val s =
     (case read_bam w bam_filename of
        Inl e \<Rightarrow> (Inl e, s)
      | Inr bam_file \<Rightarrow>
          (case region_counter bam_file Map.empty of
             Inl e \<Rightarrow> (Inl e, s)
           | Inr region_to_count \<Rightarrow>
               (case aggregate na_val (exon_lens ce) num_mapped (genes_to_exons ce)
                       \<lparr>table = region_to_count, rpkm_table = [], rpkm_calls = []\<rparr> of
                  (r, st) \<Rightarrow>
                    let s1 = s\<lparr>compute_rpkm_calls := compute_rpkm_calls s @ rpkm_calls st\<rparr>
                    in (case r of
                          Some e \<Rightarrow> (Inl e, s1)
                        | None \<Rightarrow>
                            (Inr output_filename,
                             s1\<lparr>files := insert output_filename (files s1),
                                rpkm_files := (rpkm_files s1)(output_filename \<mapsto> rpkm_table st)\<rparr>)))))"

text \<open>
  A sample, as far as \<^verbatim>\<open>output_rpkm\<close> reads it; \<open>num_ribosub_mapped\<close> is the value
  of \<^verbatim>\<open>int(sample.qc.qc_results["num_ribosub_mapped"])\<close>.
\<close>

record sample =
  label :: string
  ribosub_bam_filename :: string
  num_ribosub_mapped :: int

definition rpkm_filename :: "string \<Rightarrow> string \<Rightarrow> string" where
  \<comment> \<open>\<^verbatim>\<open>"%s.rpkm" %(os.path.join(output_dir, table_name))\<close>\<close>
  "rpkm_filename output_dir table_name = path_join output_dir table_name @ ''.rpkm''"

text \<open>
  The loop over \<^verbatim>\<open>rna_base.tables_to_const_exons.iteritems()\<close>, the dictionary's items
  in the order of iteration. The third argument from the end is the local variable
  \<^verbatim>\<open>rpkm_output_filename\<close>: \<open>None\<close> while it is unbound.
  \<^verbatim>\<open>
  for table_name, const_exons in rna_base.tables_to_const_exons.iteritems():
      rpkm_output_filename = "%s.rpkm" %(os.path.join(output_dir, table_name))
      if os.path.isfile(rpkm_output_filename):
          logger.info(...)
          continue
      bam2gff_outdir = os.path.join(output_dir, "bam2gff_const_exons")
      utils.make_dir(bam2gff_outdir)
      logger.info(...)
      exons_bam_fname = map_bam2gff_subproc(logger, sample.ribosub_bam_filename,
                                            const_exons.gff_filename, bam2gff_outdir)
      num_mapped = int(sample.qc.qc_results["num_ribosub_mapped"])
      if num_mapped == 0:
          logger.critical(...)
          sys.exit(1)
      logger.info(...)
      read_len = settings_info["readlen"]
      logger.info(...)
      output_rpkm_from_gff_aligned_bam(exons_bam_fname, num_mapped, read_len,
                                       const_exons, rpkm_output_filename)
  \<close>
\<close>

fun output_rpkm_tables ::
  "world \<Rightarrow> sample \<Rightarrow> string \<Rightarrow> (string \<rightharpoonup> string) \<Rightarrow> (string \<times> const_exons) list
     \<Rightarrow> string option \<Rightarrow> sys_state \<Rightarrow> (error + string option) \<times> sys_state" where
  "output_rpkm_tables w sm output_dir settings_info [] cur s = (Inr cur, s)"
| "output_rpkm_tables w sm output_dir settings_info ((table_name, ce) # rest) cur s =
     (let rpkm_output_filename = rpkm_filename output_dir table_name
      in if isfile s rpkm_output_filename
         then output_rpkm_tables w sm output_dir settings_info rest (Some rpkm_output_filename)
                (log_msg INFO (''  - Skipping RPKM output, found '' @ rpkm_output_filename) s)
         else
           let bam2gff_outdir = path_join output_dir ''bam2gff_const_exons'';
               s1 = s\<lparr>dirs := make_dir w bam2gff_outdir (dirs s)\<rparr>;
               s2 = log_msg INFO (''Mapping BAM to GFF '' @ const_gff_filename ce) s1
           in (case map_bam2gff_subproc w (ribosub_bam_filename sm) (const_gff_filename ce)
                      bam2gff_outdir ''gff'' s2 of
                 (Inl e, s3) \<Rightarrow> (Inl e, s3)
               | (Inr exons_bam_fname, s3) \<Rightarrow>
                   let num_mapped = num_ribosub_mapped sm
                   in if num_mapped = 0
                      then (Inl (SystemExit 1),
                            log_msg CRITICAL (''Cannot compute RPKMs since sample '' @ label sm
                              @ '' has 0 mapped reads.'') s3)
                      else
                        let s4 = log_msg INFO (''Sample '' @ label sm @ '' has ''
                                   @ py_str num_mapped @ '' mapped reads'') s3
                        in (case settings_info ''readlen'' of
                              None \<Rightarrow> (Inl (KeyError ''readlen''), s4)
                            | Some read_len \<Rightarrow>
                                let s5 = log_msg INFO
                                           (''Outputting RPKM from GFF aligned BAM (table ''
                                              @ table_name @ '')'') s4
                                in (case output_rpkm_from_gff_aligned_bam w exons_bam_fname
                                           num_mapped read_len ce rpkm_output_filename ''NA'' s5 of
                                      (Inl e, s6) \<Rightarrow> (Inl e, s6)
                                    | (Inr _, s6) \<Rightarrow>
                                        output_rpkm_tables w sm output_dir settings_info rest
                                          (Some rpkm_output_filename) s6))))"

text \<open>
  After the loop the source logs and returns \<^verbatim>\<open>rpkm_output_filename\<close>, which is
  unbound when the dictionary of tables was empty.
\<close>

definition output_rpkm ::
  "world \<Rightarrow> sample \<Rightarrow> string \<Rightarrow> (string \<rightharpoonup> string) \<Rightarrow> (string \<times> const_exons) list
     \<Rightarrow> sys_state \<Rightarrow> (error + string) \<times> sys_state" where
  "output_rpkm w sm output_dir settings_info tables_to_const_exons s =
     (case output_rpkm_tables w sm output_dir settings_info tables_to_const_exons None s of
        (Inl e, s') \<Rightarrow> (Inl e, s')
      | (Inr None, s') \<Rightarrow> (Inl UnboundLocalError, s')
      | (Inr (Some rpkm_output_filename), s') \<Rightarrow>
          (Inr rpkm_output_filename,
           log_msg INFO (''Finished outputting RPKM for '' @ label sm @ '' to ''
                           @ rpkm_output_filename) s'))"

text \<open>Every table's RPKM output file is already there.\<close>

definition all_present :: "sys_state \<Rightarrow> string \<Rightarrow> (string \<times> const_exons) list \<Rightarrow> bool" where
  "all_present s output_dir tables =
     list_all (\<lambda>t. isfile s (rpkm_filename output_dir (fst t))) tables"

section \<open>Theorems\<close>

subsection \<open>RpkmCalculator\<close>

lemma round_even_of_int [simp]: "round_even (of_int m) = m"
  by (simp add: round_even_def)

lemma round_even_bounds: "\<lfloor>y\<rfloor> \<le> round_even y" "round_even y \<le> \<lfloor>y\<rfloor> + 1"
  by (simp_all add: round_even_def Let_def)

lemma round_even_ge: "of_int k \<le> y \<Longrightarrow> k \<le> round_even y"
  using round_even_bounds(1) [of y] le_floor_iff [of k y] by linarith

lemma round_even_le: "y \<le> of_int k \<Longrightarrow> round_even y \<le> k"
proof -
  assume a: "y \<le> of_int k"
  show ?thesis
  proof (cases "y = of_int k")
    case True then show ?thesis by simp
  next
    case False
    with a have "y < of_int k" by simp
    then have "\<lfloor>y\<rfloor> < k" by (simp add: floor_less_iff)
    with round_even_bounds(2) [of y] show ?thesis by linarith
  qed
qed

lemma binade_bounds:
  assumes "x \<noteq> 0"
  shows "2 powr of_int (binade x) \<le> \<bar>x\<bar>" "\<bar>x\<bar> < 2 powr (of_int (binade x) + 1)"
proof -
  have "0 < \<bar>x\<bar>" using assms by simp
  from floor_log_eq_powr_iff [OF this, of 2 "binade x"]
  show "2 powr of_int (binade x) \<le> \<bar>x\<bar>" "\<bar>x\<bar> < 2 powr (of_int (binade x) + 1)"
    by (simp_all add: binade_def)
qed

lemma binade_eqI:
  "2 powr of_int k \<le> \<bar>x\<bar> \<Longrightarrow> \<bar>x\<bar> < 2 powr (of_int k + 1) \<Longrightarrow> binade x = k"
proof -
  assume a: "2 powr of_int k \<le> \<bar>x\<bar>" and b: "\<bar>x\<bar> < 2 powr (of_int k + 1)"
  have "0 < (2::real) powr of_int k" by simp
  with a have "0 < \<bar>x\<bar>" by linarith
  from floor_log_eq_powr_iff [OF this, of 2 k] a b show ?thesis by (simp add: binade_def)
qed

lemma round_even_near: "\<bar>of_int (round_even y) - y\<bar> \<le> 1"
proof -
  have "of_int \<lfloor>y\<rfloor> \<le> y" "y < of_int \<lfloor>y\<rfloor> + 1" by simp_all
  moreover have "real_of_int \<lfloor>y\<rfloor> \<le> real_of_int (round_even y)"
    using round_even_bounds(1) [of y] by (simp only: of_int_le_iff)
  moreover have "real_of_int (round_even y) \<le> real_of_int (\<lfloor>y\<rfloor> + 1)"
    using round_even_bounds(2) [of y] by (simp only: of_int_le_iff)
  then have "real_of_int (round_even y) \<le> real_of_int \<lfloor>y\<rfloor> + 1" by simp
  ultimately show ?thesis by linarith
qed

lemma round_double_representable:
  assumes x: "x = of_int m * 2 powr of_int j" and m: "\<bar>m\<bar> < 2 ^ 53" and j: "- 1074 \<le> j"
    and b: "\<bar>x\<bar> < 2 ^ 1024"
  shows "round_double x = Finite x"
proof (cases "x = 0")
  case True
  then show ?thesis by (simp add: round_double_def)
next
  case False
  let ?q = "ulp_exp x"
  have qj: "?q \<le> j"
  proof (rule ccontr)
    assume "\<not> ?q \<le> j"
    then have q: "j < ?q" by simp
    with j have "?q = binade x - 52" by (auto simp: ulp_exp_def max_def)
    with q have "j + 53 \<le> binade x" by simp
    then have "(2::real) powr of_int (j + 53) \<le> 2 powr of_int (binade x)"
      by (intro powr_mono) simp_all
    also have "\<dots> \<le> \<bar>x\<bar>" using binade_bounds(1) [OF False] .
    finally have "2 powr of_int (j + 53) \<le> \<bar>x\<bar>" .
    moreover have "\<bar>x\<bar> = \<bar>of_int m\<bar> * 2 powr of_int j" by (simp add: x abs_mult)
    moreover have "(2::real) powr of_int (j + 53) = 2 ^ 53 * 2 powr of_int j"
      by (simp add: powr_add)
    moreover have "\<bar>of_int m :: real\<bar> < 2 ^ 53"
    proof -
      have "real_of_int \<bar>m\<bar> < real_of_int (2 ^ 53)" using m by (simp only: of_int_less_iff)
      then show ?thesis by simp
    qed
    moreover have "0 < (2::real) powr of_int j" by simp
    ultimately show False by (smt (verit) mult_less_cancel_right)
  qed
  define q where "q = ulp_exp x"
  define d where "d = j - q"
  have d0: "0 \<le> d" using qj by (simp add: d_def q_def)
  have pj: "(2::real) powr of_int j = 2 ^ nat d * 2 powr of_int q"
  proof -
    have "real_of_int j = real_of_int q + real_of_int d" by (simp add: d_def)
    then have "(2::real) powr of_int j = 2 powr of_int q * 2 powr of_int d"
      by (simp only: powr_add)
    moreover have "(2::real) powr of_int d = 2 ^ nat d"
      using d0 by (simp add: powr_real_of_int)
    ultimately show ?thesis by simp
  qed
  have x': "x = of_int (m * 2 ^ nat d) * 2 powr of_int q"
    unfolding x pj by simp
  have pos: "(2::real) powr of_int q \<noteq> 0" by simp
  have sc: "x / 2 powr of_int q = of_int (m * 2 ^ nat d)"
    using pos by (subst x') simp
  have "of_int (round_even (x / 2 powr of_int q)) * 2 powr of_int q = x"
    unfolding sc round_even_of_int using x' by simp
  then have req: "of_int (round_even (x / 2 powr of_int (ulp_exp x))) * 2 powr of_int (ulp_exp x) = x"
    unfolding q_def .
  have "round_double x = (if 2 ^ 1024 \<le> x then PosInf
                           else if x \<le> - (2 ^ 1024) then NegInf else Finite x)"
    using False by (simp only: round_double_def Let_def req if_False)
  with b show ?thesis by (simp add: abs_less_iff not_le)
qed

lemma round_double_unfold:
  "x \<noteq> 0 \<Longrightarrow> r = of_int (round_even (x / 2 powr of_int (ulp_exp x))) * 2 powr of_int (ulp_exp x)
     \<Longrightarrow> round_double x = (if 2 ^ 1024 \<le> r then PosInf
                            else if r \<le> - (2 ^ 1024) then NegInf else Finite r)"
  by (simp only: round_double_def Let_def if_False)

lemma round_double_FiniteD:
  assumes "x \<noteq> 0" and "round_double x = Finite r"
  shows "r = of_int (round_even (x / 2 powr of_int (ulp_exp x))) * 2 powr of_int (ulp_exp x)"
proof -
  define r' where "r' = real_of_int (round_even (x / 2 powr of_int (ulp_exp x))) * 2 powr of_int (ulp_exp x)"
  from round_double_unfold [OF assms(1) r'_def] assms(2)
  have "(if 2 ^ 1024 \<le> r' then PosInf else if r' \<le> - (2 ^ 1024) then NegInf else Finite r')
          = Finite r" by simp
  then have "r = r'"
    by (cases "2 ^ 1024 \<le> r'"; cases "r' \<le> - (2 ^ 1024)") (simp_all del: power_numeral)
  then show ?thesis by (simp only: r'_def)
qed

lemma round_double_magnitude:
  assumes x: "x \<noteq> 0" and n: "2 powr (- 1022) \<le> \<bar>x\<bar>" and f: "round_double x = Finite r"
  shows "2 powr of_int (binade x) \<le> \<bar>r\<bar>"
proof -
  define b where "b = binade x"
  define q where "q = ulp_exp x"
  have "(2::real) powr (- 1022) < 2 powr (of_int b + 1)"
    using n binade_bounds(2) [OF x] unfolding b_def by linarith
  then have "- 1022 < real_of_int b + 1" by simp
  then have b1: "- 1022 \<le> b" by linarith
  then have q: "q = b - 52" by (simp add: q_def ulp_exp_def b_def)
  have pq: "(2::real) powr of_int b = 2 ^ 52 * 2 powr of_int q"
  proof -
    have "real_of_int b = 52 + real_of_int q" by (simp add: q)
    then have "(2::real) powr of_int b = 2 powr 52 * 2 powr of_int q"
      by (simp only: powr_add)
    then show ?thesis by simp
  qed
  define y where "y = x / 2 powr of_int q"
  have p0: "0 < (2::real) powr of_int q" by simp
  have ay: "2 ^ 52 \<le> \<bar>y\<bar>"
  proof -
    have "2 ^ 52 * 2 powr of_int q \<le> \<bar>x\<bar>"
      using binade_bounds(1) [OF x] pq by (simp add: b_def)
    then have "2 ^ 52 \<le> \<bar>x\<bar> / 2 powr of_int q"
      using p0 by (simp add: pos_le_divide_eq)
    then show ?thesis by (simp add: y_def)
  qed
  have r: "r = of_int (round_even y) * 2 powr of_int q"
    using round_double_FiniteD [OF x f] unfolding q_def y_def .
  have "2 ^ 52 \<le> \<bar>real_of_int (round_even y)\<bar>"
  proof (cases "0 \<le> y")
    case True
    with ay have "real_of_int (2 ^ 52) \<le> y" by simp
    from round_even_ge [OF this] have "real_of_int (2 ^ 52) \<le> real_of_int (round_even y)"
      by (simp only: of_int_le_iff)
    then show ?thesis by simp
  next
    case False
    with ay have "y \<le> real_of_int (- (2 ^ 52))" by simp
    from round_even_le [OF this] have "real_of_int (round_even y) \<le> real_of_int (- (2 ^ 52))"
      by (simp only: of_int_le_iff)
    then show ?thesis by simp
  qed
  then have "2 ^ 52 * 2 powr of_int q \<le> \<bar>real_of_int (round_even y)\<bar> * 2 powr of_int q"
    using p0 by (simp only: mult_le_cancel_right) simp
  then show ?thesis
    by (simp add: r abs_mult pq flip: b_def)
qed

lemma round_double_finite:
  assumes "\<bar>x\<bar> < 2 ^ 1023"
  shows "\<exists>r. round_double x = Finite r"
proof (cases "x = 0")
  case True
  then show ?thesis by (simp add: round_double_def)
next
  case False
  note nz = False
  define q where "q = ulp_exp x"
  define y where "y = x / 2 powr of_int q"
  define r :: real where "r = of_int (round_even y) * 2 powr of_int q"
  have p0: "0 < (2::real) powr of_int q" by simp
  have xq: "x = y * 2 powr of_int q" by (simp add: y_def)
  have "\<bar>r - x\<bar> = \<bar>of_int (round_even y) - y\<bar> * 2 powr of_int q"
    by (simp add: r_def xq abs_mult flip: left_diff_distrib)
  also have "\<dots> \<le> 1 * 2 powr of_int q"
    using round_even_near [of y] p0 by (intro mult_right_mono) simp_all
  finally have near: "\<bar>r - x\<bar> \<le> 2 powr of_int q" by simp
  have "(2::real) powr of_int q \<le> 2 ^ 1023"
  proof (cases "binade x - 52 \<le> - 1074")
    case True
    then have "q = - 1074" by (simp add: q_def ulp_exp_def)
    then have "real_of_int q \<le> 0" by simp
    then have "(2::real) powr of_int q \<le> 2 powr 0" by (intro powr_mono) simp_all
    also have "\<dots> \<le> 2 ^ 1023" by simp
    finally show ?thesis .
  next
    case False
    then have "q = binade x - 52" by (simp add: q_def ulp_exp_def)
    then have "real_of_int q \<le> of_int (binade x)" by simp
    then have "(2::real) powr of_int q \<le> 2 powr of_int (binade x)"
      by (intro powr_mono) simp_all
    also have "\<dots> \<le> \<bar>x\<bar>" using binade_bounds(1) [OF nz] .
    finally show ?thesis using assms by simp
  qed
  with near assms have "\<bar>r\<bar> < 2 ^ 1023 + 2 ^ 1023" by linarith
  also have "(2::real) ^ 1023 + 2 ^ 1023 = 2 ^ 1024" by simp
  finally have lt: "\<bar>r\<bar> < 2 ^ 1024" .
  have "round_double x = (if 2 ^ 1024 \<le> r then PosInf
                            else if r \<le> - (2 ^ 1024) then NegInf else Finite r)"
    by (rule round_double_unfold [OF nz]) (simp only: r_def y_def q_def)
  moreover from lt have "\<not> 2 ^ 1024 \<le> r" "\<not> r \<le> - (2 ^ 1024)"
    by (simp_all only: abs_less_iff not_le) simp_all
  ultimately show ?thesis by (simp only: if_False) blast
qed

lemma round_double_Finite_bound:
  assumes "round_double x = Finite r"
  shows "\<bar>r\<bar> < 2 ^ 1024"
proof (cases "x = 0")
  case True
  with assms have "r = 0" by (simp add: round_double_def)
  then show ?thesis by simp
next
  case False
  define r' where "r' = real_of_int (round_even (x / 2 powr of_int (ulp_exp x))) * 2 powr of_int (ulp_exp x)"
  from round_double_unfold [OF False r'_def] assms
  have e: "(if 2 ^ 1024 \<le> r' then PosInf else if r' \<le> - (2 ^ 1024) then NegInf else Finite r')
          = Finite r" by simp
  then have "r = r' \<and> \<not> 2 ^ 1024 \<le> r' \<and> \<not> r' \<le> - (2 ^ 1024)"
    by (cases "2 ^ 1024 \<le> r'"; cases "r' \<le> - (2 ^ 1024)") (simp_all del: power_numeral)
  then show ?thesis by (simp only: abs_less_iff not_le) simp
qed

lemma round_double_lower:
  assumes x: "x \<noteq> 0" and k: "2 powr of_int k \<le> \<bar>x\<bar>" and n: "- 1022 \<le> k"
    and f: "round_double x = Finite r"
  shows "2 powr of_int k \<le> \<bar>r\<bar>"
proof -
  have "(2::real) powr (- 1022) \<le> 2 powr of_int k" using n by (intro powr_mono) simp_all
  with k have n': "2 powr (- 1022) \<le> \<bar>x\<bar>" by linarith
  have "(2::real) powr of_int k < 2 powr (of_int (binade x) + 1)"
    using k binade_bounds(2) [OF x] by linarith
  then have "real_of_int k < real_of_int (binade x) + 1" by simp
  then have "real_of_int k < real_of_int (binade x + 1)" by simp
  then have "k < binade x + 1" by (simp only: of_int_less_iff)
  then have "real_of_int k \<le> real_of_int (binade x)" by simp
  then have "(2::real) powr of_int k \<le> 2 powr of_int (binade x)" by (intro powr_mono) simp_all
  also have "\<dots> \<le> \<bar>r\<bar>" by (rule round_double_magnitude [OF x n' f])
  finally show ?thesis .
qed

lemma round_double_int:
  assumes "\<bar>m\<bar> < 2 ^ 53"
  shows "round_double (of_int m) = Finite (of_int m)"
proof -
  have "real_of_int \<bar>m\<bar> < real_of_int (2 ^ 53)" using assms by (simp only: of_int_less_iff)
  then have "\<bar>real_of_int m\<bar> < 2 ^ 53" by simp
  also have "(2::real) ^ 53 \<le> 2 ^ 1024" by (rule power_increasing) simp_all
  finally have b: "\<bar>real_of_int m\<bar> < 2 ^ 1024" .
  show ?thesis
    by (rule round_double_representable [of _ m 0]) (use assms b in simp_all)
qed

lemma to_float_ok:
  assumes "\<bar>i\<bar> < 2 ^ 1023"
  shows "\<exists>r. to_float i = Inr (Finite r) \<and> round_double (of_int i) = Finite r
             \<and> \<bar>r\<bar> < 2 ^ 1024 \<and> (i \<noteq> 0 \<longrightarrow> 1 \<le> \<bar>r\<bar>)"
proof -
  have "real_of_int \<bar>i\<bar> < real_of_int (2 ^ 1023)" using assms by (simp only: of_int_less_iff)
  then have "\<bar>real_of_int i\<bar> < 2 ^ 1023" by simp
  from round_double_finite [OF this] obtain r where r: "round_double (of_int i) = Finite r"
    by blast
  have "1 \<le> \<bar>r\<bar>" if "i \<noteq> 0"
  proof -
    from that have "1 \<le> \<bar>i\<bar>" by simp
    then have "real_of_int 1 \<le> real_of_int \<bar>i\<bar>" by (simp only: of_int_le_iff)
    then have "2 powr of_int 0 \<le> \<bar>real_of_int i\<bar>" by simp
    from round_double_lower [OF _ this _ r] that show ?thesis by simp
  qed
  with r round_double_Finite_bound [OF r] show ?thesis by (simp add: to_float_def)
qed

lemma quotient_ok:
  assumes r: "1 \<le> \<bar>r\<bar>" "\<bar>r\<bar> < 2 ^ 1024" and d: "d = 1000 \<or> d = 1000000"
  shows "\<exists>k. round_double (r / d) = Finite k \<and> k \<noteq> 0"
proof -
  have d0: "0 < d" "1000 \<le> d" "d \<le> 1000000" using d by auto
  have "\<bar>r / d\<bar> = \<bar>r\<bar> / d" using d0 by simp
  have up: "\<bar>r / d\<bar> < 2 ^ 1023"
  proof -
    have "\<bar>r\<bar> / d \<le> \<bar>r\<bar> / 2" using d0 by (intro divide_left_mono) simp_all
    also have "\<dots> < 2 ^ 1024 / 2" using r(2) by simp
    also have "\<dots> = (2::real) ^ 1023" by simp
    finally show ?thesis using d0 by simp
  qed
  from round_double_finite [OF up] obtain k where k: "round_double (r / d) = Finite k" by blast
  have nz: "r / d \<noteq> 0" using r(1) d0 by auto
  have "(2::real) powr of_int (- 20) \<le> 1 / 1000000" by (simp add: powr_neg_numeral)
  also have "\<dots> \<le> 1 / d" using d0 by (intro divide_left_mono) simp_all
  also have "\<dots> \<le> \<bar>r\<bar> / d" using r(1) d0 by (intro divide_right_mono) simp_all
  finally have "2 powr of_int (- 20) \<le> \<bar>r / d\<bar>" using d0 by simp
  from round_double_lower [OF nz this _ k] have "0 < \<bar>k\<bar>"
    by (smt (verit) powr_gt_zero)
  with k show ?thesis by auto
qed

lemma compute_rpkm_double:
  assumes l: "l \<noteq> 0" and n: "n \<noteq> 0"
    and bc: "\<bar>c\<bar> < 2 ^ 1023" and bl: "\<bar>l\<bar> < 2 ^ 1023" and bn: "\<bar>n\<bar> < 2 ^ 1023"
  shows "compute_rpkm c l n =
           Inr (fl_div (fl_div (round_double (of_int c))
                               (fl_div (round_double (of_int l)) (Finite 1000)))
                       (fl_div (round_double (of_int n)) (Finite 1000000)))"
proof -
  from to_float_ok [OF bl] l obtain rl where rl: "to_float l = Inr (Finite rl)"
    "round_double (of_int l) = Finite rl" "\<bar>rl\<bar> < 2 ^ 1024" "1 \<le> \<bar>rl\<bar>" by blast
  from to_float_ok [OF bn] n obtain rn where rn: "to_float n = Inr (Finite rn)"
    "round_double (of_int n) = Finite rn" "\<bar>rn\<bar> < 2 ^ 1024" "1 \<le> \<bar>rn\<bar>" by blast
  from to_float_ok [OF bc] obtain rc where rc: "to_float c = Inr (Finite rc)"
    "round_double (of_int c) = Finite rc" by blast
  from quotient_ok [OF rl(4) rl(3), of 1000] obtain kb
    where kb: "round_double (rl / 1000) = Finite kb" "kb \<noteq> 0" by auto
  from quotient_ok [OF rn(4) rn(3), of 1000000] obtain m
    where m: "round_double (rn / 1000000) = Finite m" "m \<noteq> 0" by auto
  show ?thesis
    by (simp add: compute_rpkm_def int_div_float_def float_div_def rl rn rc kb m)
qed

lemma round_double_numeral:
  "round_double 0 = Finite 0" "round_double 1 = Finite 1" "round_double 2 = Finite 2"
  "round_double 5 = Finite 5" "round_double 9 = Finite 9" "round_double 10 = Finite 10"
  "round_double 1000 = Finite 1000" "round_double 2000 = Finite 2000"
  "round_double 1000000 = Finite 1000000"
  using round_double_int [of 0] round_double_int [of 1] round_double_int [of 2]
    round_double_int [of 5] round_double_int [of 9] round_double_int [of 10]
    round_double_int [of 1000] round_double_int [of 2000] round_double_int [of 1000000]
  by simp_all

lemma compute_rpkm_examples:
  "compute_rpkm 10 2000 1000000 = Inr (Finite 5)"
  "compute_rpkm 0 1000 1000000 = Inr (Finite 0)"
  using compute_rpkm_double [of 2000 1000000 10] compute_rpkm_double [of 1000 1000000 0]
  by (simp_all add: round_double_numeral)

lemma round_double_eval:
  assumes x: "x \<noteq> 0" and b: "2 powr of_int b \<le> \<bar>x\<bar>" "\<bar>x\<bar> < 2 powr (of_int b + 1)"
    and q: "q = max (b - 52) (- 1074)"
    and m: "round_even (x / 2 powr of_int q) = m"
    and f: "\<bar>real_of_int m * 2 powr of_int q\<bar> < 2 ^ 1024"
  shows "round_double x = Finite (of_int m * 2 powr of_int q)"
proof -
  have "binade x = b" by (rule binade_eqI [OF b])
  then have u: "ulp_exp x = q" by (simp add: ulp_exp_def q)
  have "round_double x = (if 2 ^ 1024 \<le> real_of_int m * 2 powr of_int q then PosInf
          else if real_of_int m * 2 powr of_int q \<le> - (2 ^ 1024) then NegInf
          else Finite (real_of_int m * 2 powr of_int q))"
    by (rule round_double_unfold [OF x]) (simp only: u m)
  moreover from f have "\<not> 2 ^ 1024 \<le> real_of_int m * 2 powr of_int q"
    "\<not> real_of_int m * 2 powr of_int q \<le> - (2 ^ 1024)"
    by (simp_all only: abs_less_iff not_le) simp_all
  ultimately show ?thesis by (simp only: if_False)
qed

lemma region_kb_9: "round_double (9 / 1000) = Finite (5188146770730811 / 2 ^ 59)"
proof -
  have "round_double (9 / 1000) = Finite (of_int 5188146770730811 * 2 powr of_int (- 59))"
  proof (rule round_double_eval [where b = "- 7"])
    show "round_even (9 / 1000 / 2 powr real_of_int (- 59)) = 5188146770730811"
      by (simp add: round_even_def powr_neg_numeral Let_def)
    show "\<bar>real_of_int 5188146770730811 * 2 powr real_of_int (- 59)\<bar> < 2 ^ 1024"
      by (simp add: powr_neg_numeral)
  qed (simp_all add: powr_neg_numeral)
  then show ?thesis by (simp add: powr_neg_numeral)
qed

lemma rpkm_num_9:
  "round_double (9 / (5188146770730811 / 2 ^ 59)) = Finite (8796093022208001 / 2 ^ 43)"
proof -
  have "round_double (9 / (5188146770730811 / 2 ^ 59))
          = Finite (of_int 8796093022208001 * 2 powr of_int (- 43))"
  proof (rule round_double_eval [where b = 9])
    show "round_even (9 / (5188146770730811 / 2 ^ 59) / 2 powr real_of_int (- 43))
            = 8796093022208001"
      by (simp add: round_even_def powr_neg_numeral Let_def)
    show "\<bar>real_of_int 8796093022208001 * 2 powr real_of_int (- 43)\<bar> < 2 ^ 1024"
      by (simp add: powr_neg_numeral)
  qed (simp_all add: powr_neg_numeral)
  then show ?thesis by (simp add: powr_neg_numeral)
qed

lemma rpkm_9_repr:
  "round_double (8796093022208001 / 2 ^ 43) = Finite (8796093022208001 / 2 ^ 43)"
proof -
  have "round_double (of_int 8796093022208001 * 2 powr of_int (- 43))
          = Finite (of_int 8796093022208001 * 2 powr of_int (- 43))"
    by (rule round_double_representable [of _ 8796093022208001 "- 43"])
      (simp_all add: powr_neg_numeral)
  then show ?thesis by (simp add: powr_neg_numeral)
qed

lemma compute_rpkm_9: "compute_rpkm 9 9 1000000 = Inr (Finite (8796093022208001 / 2 ^ 43))"
proof -
  have 1: "fl_div (round_double 9) (Finite 1000) = Finite (5188146770730811 / 2 ^ 59)"
    by (simp only: round_double_numeral fl_div.simps region_kb_9)
  have 2: "fl_div (round_double 9) (Finite (5188146770730811 / 2 ^ 59))
             = Finite (8796093022208001 / 2 ^ 43)"
    by (simp only: round_double_numeral fl_div.simps rpkm_num_9)
  have 3: "fl_div (round_double 1000000) (Finite 1000000) = Finite 1"
    by (simp add: round_double_numeral)
  have 4: "fl_div (Finite (8796093022208001 / 2 ^ 43)) (Finite 1)
             = Finite (8796093022208001 / 2 ^ 43)"
    by (simp only: fl_div.simps div_by_1 rpkm_9_repr)
  have "compute_rpkm 9 9 1000000 =
           Inr (fl_div (fl_div (round_double (of_int 9))
                               (fl_div (round_double (of_int 9)) (Finite 1000)))
                       (fl_div (round_double (of_int 1000000)) (Finite 1000000)))"
    by (rule compute_rpkm_double) simp_all
  also have "\<dots> = Inr (Finite (8796093022208001 / 2 ^ 43))"
    by (simp only: of_int_numeral 1 2 3 4)
  finally show ?thesis .
qed


text \<open>An integer of \<open>2\<^sup>1\<^sup>0\<^sup>2\<^sup>4\<close> or more does not convert: the call raises.\<close>

lemma round_double_overflow: "round_double (2 ^ 1024) = PosInf"
proof -
  have b: "binade (2 ^ 1024) = 1024"
  proof (rule binade_eqI)
    have "(2::real) powr real_of_int 1024 = 2 ^ 1024" by (simp del: power_numeral)
    then show "2 powr real_of_int 1024 \<le> \<bar>2 ^ 1024 :: real\<bar>" by (simp del: power_numeral)
    have "(2::real) powr (real_of_int 1024 + 1) = 2 ^ 1025" by (simp del: power_numeral)
    moreover have "(2::real) ^ 1024 < 2 ^ 1025" by (rule power_strict_increasing) simp_all
    ultimately show "\<bar>2 ^ 1024 :: real\<bar> < 2 powr (real_of_int 1024 + 1)"
      by (simp del: power_numeral)
  qed
  then have u: "ulp_exp (2 ^ 1024) = 972" by (simp add: ulp_exp_def del: power_numeral)
  have p: "(2::real) powr real_of_int 972 = 2 ^ 972" by (simp del: power_numeral)
  have d: "(2::real) ^ 1024 / 2 ^ 972 = of_int (2 ^ 52)"
    by simp
  have r: "real_of_int (round_even (2 ^ 1024 / 2 powr real_of_int (ulp_exp (2 ^ 1024))))
             * 2 powr real_of_int (ulp_exp (2 ^ 1024)) = 2 ^ 1024"
    unfolding u p d round_even_of_int by (simp flip: power_add del: power_numeral)
  have "round_double (2 ^ 1024)
          = (if (2::real) ^ 1024 \<le> 2 ^ 1024 then PosInf
             else if (2::real) ^ 1024 \<le> - (2 ^ 1024) then NegInf else Finite (2 ^ 1024))"
    by (rule round_double_unfold) (simp_all only: r, simp)
  then show ?thesis by (simp only: order_refl if_True)
qed

lemma compute_rpkm_overflow: "compute_rpkm c (2 ^ 1024) n = Inl OverflowError"
proof -
  have "to_float (2 ^ 1024) = Inl OverflowError"
    using round_double_overflow by (simp add: to_float_def del: power_numeral)
  then show ?thesis by (simp add: compute_rpkm_def int_div_float_def del: power_numeral)
qed

lemma round_double_3_2: "round_double (3 / 2) = Finite (3 / 2)"
proof -
  have "round_double (of_int 3 * 2 powr of_int (- 1)) = Finite (of_int 3 * 2 powr of_int (- 1))"
    by (rule round_double_representable [of _ 3 "- 1"]) (simp_all add: powr_neg_numeral)
  then show ?thesis by (simp add: powr_minus)
qed

text \<open>
  C3 (as amended). For every \<open>length_bp > 0\<close> and \<open>total_mapped_reads > 0\<close>, the three
  arguments being small enough to convert to floats (below \<open>2\<^sup>1\<^sup>0\<^sup>2\<^sup>3\<close> in magnitude),
  \<open>compute_rpkm\<close> returns, and its value is
  \<open>(count / (length_bp / 1000)) / (total_mapped_reads / 1000000)\<close> evaluated in double
  precision: the arguments converted to doubles and each of the four quotients rounded to
  the nearest double. In particular \<open>compute_rpkm 10 2000 1000000\<close> is \<open>5.0\<close> and
  \<open>compute_rpkm 0 1000 1000000\<close> is \<open>0.0\<close>.
\<close>

theorem compute_rpkm_formula:
  "(0 < length_bp \<and> 0 < total_mapped_reads
      \<and> \<bar>count\<bar> < 2 ^ 1023 \<and> length_bp < 2 ^ 1023 \<and> total_mapped_reads < 2 ^ 1023 \<longrightarrow>
      compute_rpkm count length_bp total_mapped_reads =
        Inr (fl_div (fl_div (round_double (of_int count))
                            (fl_div (round_double (of_int length_bp)) (Finite 1000)))
                    (fl_div (round_double (of_int total_mapped_reads)) (Finite 1000000))))
   \<and> compute_rpkm 10 2000 1000000 = Inr (Finite 5)
   \<and> compute_rpkm 0 1000 1000000 = Inr (Finite 0)"
proof (intro conjI impI)
  assume a: "0 < length_bp \<and> 0 < total_mapped_reads
      \<and> \<bar>count\<bar> < 2 ^ 1023 \<and> length_bp < 2 ^ 1023 \<and> total_mapped_reads < 2 ^ 1023"
  then have "length_bp \<noteq> 0" "total_mapped_reads \<noteq> 0" "\<bar>count\<bar> < 2 ^ 1023"
    "\<bar>length_bp\<bar> < 2 ^ 1023" "\<bar>total_mapped_reads\<bar> < 2 ^ 1023"
    by simp_all
  then show "compute_rpkm count length_bp total_mapped_reads =
        Inr (fl_div (fl_div (round_double (of_int count))
                            (fl_div (round_double (of_int length_bp)) (Finite 1000)))
                    (fl_div (round_double (of_int total_mapped_reads)) (Finite 1000000)))"
    by (rule compute_rpkm_double)
next
  show "compute_rpkm 10 2000 1000000 = Inr (Finite 5)" by (rule compute_rpkm_examples(1))
next
  show "compute_rpkm 0 1000 1000000 = Inr (Finite 0)" by (rule compute_rpkm_examples(2))
qed

theorem compute_rpkm_formula_witness:
  "compute_rpkm 12 4000 2000000 = Inr (Finite (3 / 2))"
proof -
  have h: "0 < (4000::int) \<and> 0 < (2000000::int) \<and> \<bar>12::int\<bar> < 2 ^ 1023
      \<and> (4000::int) < 2 ^ 1023 \<and> (2000000::int) < 2 ^ 1023" by simp
  have r: "round_double 12 = Finite 12" "round_double 4000 = Finite 4000"
    "round_double 2000000 = Finite 2000000" "round_double 4 = Finite 4"
    "round_double 3 = Finite 3"
    using round_double_int [of 12] round_double_int [of 4000] round_double_int [of 2000000]
      round_double_int [of 4] round_double_int [of 3]
    by simp_all
  from compute_rpkm_formula [of 4000 2000000 12, THEN conjunct1, THEN mp, OF h]
  show ?thesis by (simp add: r round_double_numeral round_double_3_2)
qed

text \<open>
  C3 as stated fails: at \<open>(9, 9, 1000000)\<close> the value returned is the double
  \<open>1000.0000000000001\<close>, that is \<open>8796093022208001 / 2\<^sup>4\<^sup>3\<close>, not the quotient
  \<open>(9 / (9 / 1000)) / (1000000 / 1000000) = 1000\<close>.
\<close>

theorem compute_rpkm_not_exact_counterexample:
  "compute_rpkm 9 9 1000000 = Inr (Finite (8796093022208001 / 2 ^ 43))
   \<and> (8796093022208001 / 2 ^ 43 :: real) \<noteq> (9 / (9 / 1000)) / (1000000 / 1000000)"
  by (simp add: compute_rpkm_9)


subsection \<open>RegionCounter\<close>

lemma count_of_dd_incr:
  "count_of (dd_incr tbl k) k' = count_of tbl k' + (if k' = k then 1 else 0)"
  by (simp add: count_of_def dd_incr_def dd_get_def split: option.splits)

lemma count_regions_counts:
  "map parse_region regions = map Inr rs \<Longrightarrow>
   \<exists>tbl'. count_regions regions tbl = Inr tbl'
     \<and> (\<forall>k. count_of tbl' k = count_of tbl k + int (count_list (map region_str rs) k))"
proof (induction regions arbitrary: rs tbl)
  case Nil
  then show ?case by simp
next
  case (Cons region regions)
  then obtain r rs' where rs: "rs = r # rs'" and r: "parse_region region = Inr r"
    and rest: "map parse_region regions = map Inr rs'"
    by (cases rs) auto
  from Cons.IH [OF rest, of "dd_incr tbl (region_str r)"]
  obtain tbl' where t: "count_regions regions (dd_incr tbl (region_str r)) = Inr tbl'"
    and c: "\<forall>k. count_of tbl' k = count_of (dd_incr tbl (region_str r)) k
               + int (count_list (map region_str rs') k)"
    by blast
  show ?case using t c r rs by (auto simp: count_of_dd_incr)
qed

lemma all_parsed:
  "\<forall>region\<in>set regions. \<exists>chrom s e. parse_region region = Inr (chrom, s, e)
   \<Longrightarrow> \<exists>rs. map parse_region regions = map Inr rs"
proof (induction regions)
  case Nil
  then show ?case by simp
next
  case (Cons a regions)
  then obtain rs where "map parse_region regions = map Inr rs" by auto
  moreover from Cons.prems obtain r where "parse_region a = Inr r" by auto
  ultimately have "map parse_region (a # regions) = map Inr (r # rs)" by simp
  then show ?case by blast
qed

text \<open>
  One tagged record whose pieces all parse, whatever their shape.
\<close>

lemma region_counter_tagged_record:
  assumes tag: "tags bam_read ''YB'' = Some payload"
    and ok: "\<forall>region\<in>set (tl (py_split ''gff:'' payload)).
               \<exists>chrom s e. parse_region region = Inr (chrom, s, e)"
  shows "\<exists>rs tbl'.
           map parse_region (tl (py_split ''gff:'' payload)) = map Inr rs
         \<and> region_counter (bam_read # rest) tbl = region_counter rest tbl'
         \<and> count_regions (tl (py_split ''gff:'' payload)) tbl = Inr tbl'
         \<and> (\<forall>k. count_of tbl' k = count_of tbl k
                  + int (count_list
                      (map (\<lambda>(chrom, s, e). chrom @ '':'' @ py_str (s + 1) @ ''-'' @ py_str e) rs) k))"
proof -
  from all_parsed [OF ok] obtain rs
    where rs: "map parse_region (tl (py_split ''gff:'' payload)) = map Inr rs" by blast
  from count_regions_counts [OF rs, of tbl] obtain tbl'
    where t: "count_regions (tl (py_split ''gff:'' payload)) tbl = Inr tbl'"
      and c: "\<forall>k. count_of tbl' k = count_of tbl k + int (count_list (map region_str rs) k)"
    by blast
  have f: "region_str = (\<lambda>(chrom, s, e). chrom @ '':'' @ py_str (s + 1) @ ''-'' @ py_str e)"
    by (auto simp: region_str_def fun_eq_iff)
  have "region_counter (bam_read # rest) tbl = region_counter rest tbl'"
    using tag t by (simp add: parsed_regions_def)
  with rs t c f show ?thesis by metis
qed

lemma split1_sep:
  "c \<notin> set xs \<Longrightarrow> split_from [c] acc (xs @ c # ys) = (rev acc @ xs) # split_from [c] [] ys"
  by (induction xs arbitrary: acc) (auto simp: startswith_def)

lemma split1_none: "c \<notin> set xs \<Longrightarrow> split_from [c] acc xs = [rev acc @ xs]"
  by (induction xs arbitrary: acc) (auto simp: startswith_def)

lemma split1_hd: "hd (split_from [c] acc s) = rev acc @ takeWhile (\<lambda>x. x \<noteq> c) s"
  by (induction s arbitrary: acc) (auto simp: startswith_def)

lemma no_marker_across:
  "\<not> startswith (x # xs) ''gff:'' \<Longrightarrow> \<not> startswith (x # xs @ ''gff:'' @ ys) ''gff:''"
  by (cases xs; cases "tl xs"; cases "tl (tl xs)") (auto simp: startswith_def)

lemma split_marker_sep:
  "\<not> contains ''gff:'' xs \<Longrightarrow>
     split_from ''gff:'' acc (xs @ ''gff:'' @ ys) = (rev acc @ xs) # split_from ''gff:'' [] ys"
proof (induction xs arbitrary: acc)
  case Nil
  then show ?case by (simp add: startswith_def)
next
  case (Cons x xs)
  then have a: "\<not> startswith (x # xs) ''gff:''" and b: "\<not> contains ''gff:'' xs" by simp_all
  from no_marker_across [OF a, of ys]
  have "split_from ''gff:'' acc ((x # xs) @ ''gff:'' @ ys)
          = split_from ''gff:'' (x # acc) (xs @ ''gff:'' @ ys)" by simp
  with Cons.IH [OF b, of "x # acc"] show ?case by simp
qed

lemma split_marker_none:
  "\<not> contains ''gff:'' xs \<Longrightarrow> split_from ''gff:'' acc xs = [rev acc @ xs]"
  by (induction xs arbitrary: acc) auto

lemma split_payload:
  "\<not> contains ''gff:'' pre \<Longrightarrow> \<forall>t\<in>set ts. \<not> contains ''gff:'' t \<Longrightarrow>
     split_from ''gff:'' [] (pre @ concat (map (\<lambda>t. ''gff:'' @ t) ts)) = pre # ts"
proof (induction ts arbitrary: pre)
  case Nil
  then show ?case by (simp add: split_marker_none)
next
  case (Cons t ts)
  have "split_from ''gff:'' [] (pre @ concat (map (\<lambda>t. ''gff:'' @ t) (t # ts)))
          = split_from ''gff:'' [] (pre @ ''gff:'' @ (t @ concat (map (\<lambda>t. ''gff:'' @ t) ts)))"
    by simp
  also have "\<dots> = pre # split_from ''gff:'' [] (t @ concat (map (\<lambda>t. ''gff:'' @ t) ts))"
    using split_marker_sep [OF Cons.prems(1), of "[]"] by simp
  also have "\<dots> = pre # t # ts"
    using Cons.IH [of t] Cons.prems(2) by simp
  finally show ?case .
qed

lemma parsed_regions_payload:
  assumes "\<not> contains ''gff:'' pre" and "list_all well_formed_region rs"
  shows "parsed_regions (payload_text pre rs) = map region_text rs"
proof -
  have "\<forall>t\<in>set (map region_text rs). \<not> contains ''gff:'' t"
    using assms(2) by (auto simp: list_all_iff well_formed_region_def)
  from split_payload [OF assms(1) this]
  show ?thesis by (simp add: parsed_regions_def payload_text_def py_split_def comp_def)
qed

lemma digit_val_digit_char: "digit_val (digit_char d) = Some (d mod 10)"
proof -
  have "d mod 10 < 10" by simp
  then have "d mod 10 = 0 \<or> d mod 10 = 1 \<or> d mod 10 = 2 \<or> d mod 10 = 3 \<or> d mod 10 = 4
      \<or> d mod 10 = 5 \<or> d mod 10 = 6 \<or> d mod 10 = 7 \<or> d mod 10 = 8 \<or> d mod 10 = 9"
    by arith
  then show ?thesis
    by (elim disjE) (simp_all add: digit_val_def digit_char_def)
qed

lemma digits_val_snoc:
  "digits_val m (xs @ [c]) =
     (case digits_val m xs of None \<Rightarrow> None
      | Some v \<Rightarrow> (case digit_val c of None \<Rightarrow> None | Some d \<Rightarrow> Some (10 * v + d)))"
  by (induction xs arbitrary: m) (auto split: option.splits)

lemma digits_val_str_nat: "digits_val 0 (str_nat n) = Some n"
proof (induction n rule: str_nat.induct)
  case (1 n)
  show ?case
  proof (cases "n < 10")
    case True
    then show ?thesis by (simp add: str_nat.simps [of n] digit_val_digit_char)
  next
    case False
    with 1 have "digits_val 0 (str_nat (n div 10)) = Some (n div 10)" by simp
    with False show ?thesis
      by (simp add: str_nat.simps [of n] digits_val_snoc digit_val_digit_char)
  qed
qed

lemma str_nat_nonempty: "str_nat n \<noteq> []"
  by (simp add: str_nat.simps [of n])

lemma digit_char_in: "digit_char d \<in> set ''0123456789''"
proof -
  have "d mod 10 < length ''0123456789''" by simp
  then show ?thesis unfolding digit_char_def by (rule nth_mem)
qed

lemma str_nat_digits: "set (str_nat n) \<subseteq> set ''0123456789''"
proof (induction n rule: str_nat.induct)
  case (1 n)
  show ?case
  proof (cases "n < 10")
    case True
    then show ?thesis using digit_char_in [of n] by (simp add: str_nat.simps [of n])
  next
    case False
    with 1 have "set (str_nat (n div 10)) \<subseteq> set ''0123456789''" by simp
    with False digit_char_in [of n] show ?thesis by (simp add: str_nat.simps [of n])
  qed
qed

lemma str_nat_chars:
  assumes "c \<in> set (str_nat n)"
  shows "\<not> is_space c" "c \<noteq> CHR ''-''" "c \<noteq> CHR ''+''" "c \<noteq> CHR '':''" "c \<noteq> CHR '',''"
  using assms str_nat_digits [of n] by (auto simp: is_space_def)

lemma strip_str_nat: "strip (str_nat n) = str_nat n"
proof -
  have a: "dropWhile is_space xs = xs" if "\<forall>c\<in>set xs. \<not> is_space c" for xs :: string
    using that by (cases xs) auto
  have "\<forall>c\<in>set (str_nat n). \<not> is_space c" using str_nat_chars(1) by blast
  moreover then have "\<forall>c\<in>set (rev (str_nat n)). \<not> is_space c" by simp
  ultimately show ?thesis by (simp add: strip_def a)
qed

lemma py_int_py_str: "py_int (py_str (int n)) = Some (int n)"
proof -
  obtain c cs where s: "str_nat n = c # cs" using str_nat_nonempty [of n] by (cases "str_nat n") auto
  then have "c \<in> set (str_nat n)" by simp
  from str_nat_chars(2,3) [OF this] have c: "c \<noteq> CHR ''-''" "c \<noteq> CHR ''+''" .
  have "py_nat (str_nat n) = Some n"
    using str_nat_nonempty [of n] by (simp add: py_nat_def digits_val_str_nat)
  moreover have "strip (c # cs) = c # cs" using strip_str_nat [of n] s by simp
  ultimately show ?thesis using s c
    by (simp add: py_int_def py_str_def)
qed

lemma py_str_nat_chars:
  "CHR '','' \<notin> set (py_str (int n))" "CHR '':'' \<notin> set (py_str (int n))"
  "CHR ''-'' \<notin> set (py_str (int n))"
  using str_nat_chars(5) [of "CHR '',''" n] str_nat_chars(4) [of "CHR '':''" n]
    str_nat_chars(2) [of "CHR ''-''" n]
  by (auto simp: py_str_def)

lemma parse_region_text:
  assumes wf: "well_formed_region (chrom, s, e, rest)"
  shows "parse_region (region_text (chrom, s, e, rest)) = Inr (chrom, int s, int e)"
proof -
  let ?A = "py_str (int s)" and ?B = "py_str (int e)"
  let ?rest' = "takeWhile (\<lambda>x. x \<noteq> CHR '','') rest"
  from wf have c1: "CHR '':'' \<notin> set chrom" and c2: "CHR '','' \<notin> set chrom"
    and r: "rest = [] \<or> hd rest = CHR '','' \<or> hd rest = CHR '':''"
    by (simp_all add: well_formed_region_def)
  have tw: "takeWhile (\<lambda>x. x \<noteq> CHR '','') (chrom @ '':'' @ ?A @ ''-'' @ ?B @ rest)
              = chrom @ '':'' @ ?A @ ''-'' @ ?B @ ?rest'"
  proof -
    have "\<forall>x\<in>set (chrom @ '':'' @ ?A @ ''-'' @ ?B). x \<noteq> CHR '',''"
      using c2 py_str_nat_chars(1) [of s] py_str_nat_chars(1) [of e] by auto
    from takeWhile_append2 [of "chrom @ '':'' @ ?A @ ''-'' @ ?B" "\<lambda>x. x \<noteq> CHR '',''" rest] this
    show ?thesis by simp
  qed
  have h: "hd (py_split '','' (region_text (chrom, s, e, rest)))
             = chrom @ CHR '':'' # ?A @ CHR ''-'' # ?B @ ?rest'"
    using tw by (simp add: py_split_def split1_hd region_text_def)
  have ab: "CHR '':'' \<notin> set (?A @ ''-'' @ ?B)"
    using py_str_nat_chars(2) [of s] py_str_nat_chars(2) [of e] by simp
  have "?rest' = [] \<or> (\<exists>r2. ?rest' = CHR '':'' # r2)"
    using r by (cases rest) auto
  then have t2: "take 2 (py_split '':'' (chrom @ CHR '':'' # ?A @ CHR ''-'' # ?B @ ?rest'))
                   = [chrom, ?A @ CHR ''-'' # ?B]"
  proof
    assume "?rest' = []"
    then show ?thesis
      using split1_sep [OF c1, of "[]" "?A @ ''-'' @ ?B"] split1_none [OF ab, of "[]"]
      by (simp add: py_split_def)
  next
    assume "\<exists>r2. ?rest' = CHR '':'' # r2"
    then obtain r2 where r2: "?rest' = CHR '':'' # r2" by blast
    show ?thesis
      using split1_sep [OF c1, of "[]" "(?A @ ''-'' @ ?B) @ CHR '':'' # r2"]
        split1_sep [OF ab, of "[]" r2]
      by (simp add: py_split_def r2)
  qed
  have d: "py_split ''-'' (?A @ CHR ''-'' # ?B) = [?A, ?B]"
    using split1_sep [OF py_str_nat_chars(3) [of s], of "[]" ?B]
      split1_none [OF py_str_nat_chars(3) [of e], of "[]"]
    by (simp add: py_split_def)
  show ?thesis
    by (simp add: parse_region_def h t2 d py_int_py_str)
qed

lemma region_str_key:
  "region_str (chrom, int s, int e) = region_key (chrom, s, e, rest)"
  by (simp add: region_str_def region_key_def)

lemma count_regions_well_formed:
  assumes "list_all well_formed_region rs"
  shows "\<exists>tbl'. count_regions (map region_text rs) tbl = Inr tbl'
           \<and> (\<forall>k. count_of tbl' k = count_of tbl k + int (count_list (map region_key rs) k))"
proof -
  let ?ps = "map (\<lambda>(chrom, s, e, rest). (chrom, int s, int e)) rs"
  have p: "map parse_region (map region_text rs) = map Inr ?ps"
    using assms by (induction rs) (auto simp: parse_region_text)
  have k: "map region_str ?ps = map region_key rs"
    by (induction rs) (auto simp: region_str_key)
  have "\<exists>tbl'. count_regions (map region_text rs) tbl = Inr tbl'
           \<and> (\<forall>k. count_of tbl' k = count_of tbl k + int (count_list (map region_str ?ps) k))"
    by (rule count_regions_counts [OF p])
  then show ?thesis by (simp only: k)
qed

text \<open>
  C1. Take a stream of alignment records in which every record either lacks the
  \<^verbatim>\<open>YB\<close> tag or carries a payload made of a preamble and well-formed regions, each
  introduced by \<^verbatim>\<open>gff:\<close>. The counting pass does not raise on it. Records without the
  tag are skipped and the pass goes on; the preamble of a payload is discarded; and each
  region adds exactly one to the count of the key \<open>contig:start+1-end\<close>: the final count
  of every key is its initial count plus the number of regions with that key, over all
  records. One record thus increments several keys when its payload holds several
  regions.
\<close>

theorem region_counter_counts:
  assumes "list_all2 describes reads ds"
  shows "\<exists>tbl'. region_counter reads tbl = Inr tbl'
           \<and> (\<forall>k. count_of tbl' k
                  = count_of tbl k + int (count_list (concat (map keys_of ds)) k))"
  using assms
proof (induction reads ds arbitrary: tbl rule: list_all2_induct)
  case Nil
  then show ?case by simp
next
  case (Cons bam_read reads d ds)
  show ?case
  proof (cases d)
    case None
    with Cons.hyps(1) have "tags bam_read ''YB'' = None" by (simp add: describes_def)
    with Cons.IH [of tbl] None show ?thesis by (simp add: keys_of_def)
  next
    case (Some a)
    obtain pre rs where a: "a = (pre, rs)" by (cases a)
    with Some Cons.hyps(1) have t: "tags bam_read ''YB'' = Some (payload_text pre rs)"
      and np: "\<not> contains ''gff:'' pre" and wf: "list_all well_formed_region rs"
      by (simp_all add: describes_def)
    from count_regions_well_formed [OF wf, of tbl] obtain tbl1
      where c: "count_regions (map region_text rs) tbl = Inr tbl1"
        and k1: "\<forall>k. count_of tbl1 k = count_of tbl k + int (count_list (map region_key rs) k)"
      by blast
    from Cons.IH [of tbl1] obtain tbl'
      where r: "region_counter reads tbl1 = Inr tbl'"
        and k2: "\<forall>k. count_of tbl' k
                  = count_of tbl1 k + int (count_list (concat (map keys_of ds)) k)"
      by blast
    have "region_counter (bam_read # reads) tbl = Inr tbl'"
      using t c r by (simp add: parsed_regions_payload [OF np wf])
    moreover have "\<forall>k. count_of tbl' k
        = count_of tbl k + int (count_list (concat (map keys_of (d # ds))) k)"
      using k1 k2 Some a by (simp add: keys_of_def)
    ultimately show ?thesis by blast
  qed
qed

theorem region_counter_counts_witness:
  "\<exists>tbl'. region_counter
            [\<lparr>tags = Map.empty\<rparr>,
             \<lparr>tags = [''YB'' \<mapsto> ''gff:chr1:99-200,+,gff:chr2:4-9,-'']\<rparr>,
             \<lparr>tags = [''NM'' \<mapsto> ''0'']\<rparr>,
             \<lparr>tags = [''YB'' \<mapsto> ''x gff:chr1:99-200'']\<rparr>] Map.empty = Inr tbl'
     \<and> count_of tbl' ''chr1:100-200'' = 2 \<and> count_of tbl' ''chr2:5-9'' = 1
     \<and> count_of tbl' ''chr1:99-200'' = 0"
proof -
  let ?reads = "[\<lparr>tags = Map.empty\<rparr>,
             \<lparr>tags = [''YB'' \<mapsto> ''gff:chr1:99-200,+,gff:chr2:4-9,-'']\<rparr>,
             \<lparr>tags = [''NM'' \<mapsto> ''0'']\<rparr>,
             \<lparr>tags = [''YB'' \<mapsto> ''x gff:chr1:99-200'']\<rparr>]"
  let ?ds = "[None, Some ([], [(''chr1'', 99, 200, '',+,''), (''chr2'', 4, 9, '',-'')]),
              None, Some (''x '', [(''chr1'', 99, 200, [])])]"
  have s: "py_str 99 = ''99''" "py_str 100 = ''100''" "py_str 200 = ''200''"
    "py_str 4 = ''4''" "py_str 5 = ''5''" "py_str 9 = ''9''"
    by (simp_all add: py_str_def str_nat.simps digit_char_def)
  have d: "list_all2 describes ?reads ?ds"
    by (simp add: describes_def payload_text_def region_text_def well_formed_region_def s
        startswith_def)
  have k: "concat (map keys_of ?ds) = [''chr1:100-200'', ''chr2:5-9'', ''chr1:100-200'']"
    by (simp add: keys_of_def region_key_def s)
  from region_counter_counts [OF d, of Map.empty] obtain tbl'
    where t: "region_counter ?reads Map.empty = Inr tbl'"
      and c: "\<forall>k. count_of tbl' k
                 = count_of Map.empty k + int (count_list (concat (map keys_of ?ds)) k)"
    by blast
  note c' = c [unfolded k]
  have e: "count_of Map.empty x = 0" for x by (simp add: count_of_def)
  from c' [THEN spec, of "''chr1:100-200''"] c' [THEN spec, of "''chr2:5-9''"]
    c' [THEN spec, of "''chr1:99-200''"]
  have "count_of tbl' ''chr1:100-200'' = 2" "count_of tbl' ''chr2:5-9'' = 1"
    "count_of tbl' ''chr1:99-200'' = 0"
    by (simp_all add: e)
  with t show ?thesis by blast
qed

subsection \<open>ExonAggregator\<close>

lemma split_from_nonempty: "split_from sep acc s \<noteq> []"
  by (induction sep acc s rule: split_from.induct) auto

lemma split_from_length:
  "contains sep s \<Longrightarrow> sep \<noteq> [] \<Longrightarrow> 1 < length (split_from sep acc s)"
proof (induction sep acc s rule: split_from.induct)
  case (1 sep acc)
  then show ?case by simp
next
  case (2 sep acc c cs)
  have "0 < length (split_from sep [] (drop (length sep - 1) cs))"
    using split_from_nonempty by blast
  with 2 show ?case by auto
qed

lemma split_dot_length: "contains ''.'' s \<Longrightarrow> 1 < length (py_split ''.'' s)"
  using split_from_length [of "''.''" s "[]"] by (simp add: py_split_def)

lemma lookup_counts_length: "lookup_counts ks tbl = (vs, tbl') \<Longrightarrow> length vs = length ks"
proof (induction ks arbitrary: tbl vs tbl')
  case Nil
  then show ?case by simp
next
  case (Cons k ks)
  obtain v tbl1 where g: "dd_get tbl k = (v, tbl1)" by (cases "dd_get tbl k")
  obtain ws tbl2 where r: "lookup_counts ks tbl1 = (ws, tbl2)"
    by (cases "lookup_counts ks tbl1")
  from Cons.prems g r have "vs = v # ws" by simp
  with Cons.IH [OF r] show ?case by simp
qed

lemma lookup_lens_length: "lookup_lens lens ks = Inr ls \<Longrightarrow> length ls = length ks"
  by (induction ks arbitrary: ls) (auto split: option.splits sum.splits)

lemma lookup_lens_error: "lookup_lens lens ks = Inl e \<Longrightarrow> \<exists>k. e = KeyError k"
  by (induction ks) (auto split: option.splits sum.splits)

lemma compute_rpkm_error:
  "compute_rpkm c l n = Inl e \<Longrightarrow> e = ZeroDivisionError \<or> e = OverflowError"
  by (auto simp: compute_rpkm_def int_div_float_def float_div_def to_float_def
      split: sum.splits pyfloat.splits if_splits)

lemma compute_rpkm_returns:
  "l \<noteq> 0 \<Longrightarrow> n \<noteq> 0 \<Longrightarrow> \<bar>c\<bar> < 2 ^ 1023 \<Longrightarrow> \<bar>l\<bar> < 2 ^ 1023 \<Longrightarrow> \<bar>n\<bar> < 2 ^ 1023
     \<Longrightarrow> \<exists>v. compute_rpkm c l n = Inr v"
  using compute_rpkm_double [of l n c] by blast

lemma append_rpkm_entry_mismatch:
  "length cs \<noteq> length ls \<Longrightarrow>
     append_rpkm_entry num_mapped gi cs ls st1 = (Some AssertionError, st1)"
  by (simp add: append_rpkm_entry_def assert_same_length_def)

lemma append_rpkm_entry_match:
  assumes "length cs = length ls"
  shows "fst (append_rpkm_entry num_mapped gi cs ls st1) \<noteq> Some AssertionError"
    and "rpkm_calls (snd (append_rpkm_entry num_mapped gi cs ls st1))
           = rpkm_calls st1 @ [(sum_list cs, sum_list ls, num_mapped)]"
    and "table (snd (append_rpkm_entry num_mapped gi cs ls st1)) = table st1"
proof -
  have a: "assert_same_length cs ls = Inr ()"
    using assms by (simp add: assert_same_length_def)
  show "fst (append_rpkm_entry num_mapped gi cs ls st1) \<noteq> Some AssertionError"
  proof (cases "compute_rpkm (sum_list cs) (sum_list ls) num_mapped")
    case (Inl e)
    with compute_rpkm_error [OF Inl] a show ?thesis
      by (auto simp: append_rpkm_entry_def Let_def)
  next
    case (Inr x)
    with a show ?thesis by (simp add: append_rpkm_entry_def Let_def)
  qed
  show "rpkm_calls (snd (append_rpkm_entry num_mapped gi cs ls st1))
           = rpkm_calls st1 @ [(sum_list cs, sum_list ls, num_mapped)]"
    using a by (simp add: append_rpkm_entry_def Let_def split: sum.splits)
  show "table (snd (append_rpkm_entry num_mapped gi cs ls st1)) = table st1"
    using a by (simp add: append_rpkm_entry_def Let_def split: sum.splits)
qed

lemma process_gene_lookups:
  assumes c: "lookup_counts (map strandless_exon (py_split '','' (exons gi))) (table st)
                = (curr_counts, tbl')"
  shows "lookup_lens lens (py_split '','' (exons gi)) = Inr curr_lens \<Longrightarrow>
           process_gene lens num_mapped gi st
             = append_rpkm_entry num_mapped gi curr_counts curr_lens (st\<lparr>table := tbl'\<rparr>)"
    and "lookup_lens lens (py_split '','' (exons gi)) = Inl e \<Longrightarrow>
           process_gene lens num_mapped gi st = (Some e, st\<lparr>table := tbl'\<rparr>)"
  using c by (simp_all add: process_gene_def Let_def)

lemma process_gene_no_assertion:
  "fst (process_gene lens num_mapped gi st) \<noteq> Some AssertionError"
proof -
  let ?parsed = "py_split '','' (exons gi)"
  obtain cs tbl' where lc: "lookup_counts (map strandless_exon ?parsed) (table st) = (cs, tbl')"
    by (cases "lookup_counts (map strandless_exon ?parsed) (table st)")
  have len: "length cs = length ?parsed"
    using lookup_counts_length [OF lc] by simp
  show ?thesis
  proof (cases "lookup_lens lens ?parsed")
    case (Inl e)
    with lookup_lens_error [OF Inl] process_gene_lookups(2) [OF lc Inl] show ?thesis
      by auto
  next
    case (Inr ls)
    with lookup_lens_length [OF Inr] len have "length cs = length ls" by simp
    from append_rpkm_entry_match(1) [OF this] process_gene_lookups(1) [OF lc Inr]
    show ?thesis by simp
  qed
qed

text \<open>
  C8. For every gene processed, with \<open>parsed\<close> its list of exon identifiers: the count
  lookups and the length lookups, when the latter succeed, are both as many as the
  identifiers, the assertion passes on them, and the gene's outcome is that of the rest
  of the loop body run on exactly these two lists; when a length lookup fails the gene
  ends with that \<^verbatim>\<open>KeyError\<close>. So processing a gene never ends in the assertion
  failure. The rest of the loop body, given any two lists of different lengths, raises
  \<open>AssertionError\<close> and does nothing else; given lists of equal length it does not, and
  goes on to call \<^verbatim>\<open>compute_rpkm\<close> on the two sums.
\<close>

theorem count_and_length_lookups_agree:
  "(\<forall>curr_counts tbl' curr_lens.
       lookup_counts (map strandless_exon (py_split '','' (exons gi))) (table st)
         = (curr_counts, tbl')
       \<and> lookup_lens lens (py_split '','' (exons gi)) = Inr curr_lens
       \<longrightarrow> length curr_counts = length (py_split '','' (exons gi))
         \<and> length curr_lens = length (py_split '','' (exons gi))
         \<and> assert_same_length curr_counts curr_lens = Inr ()
         \<and> process_gene lens num_mapped gi st
             = append_rpkm_entry num_mapped gi curr_counts curr_lens (st\<lparr>table := tbl'\<rparr>))
   \<and> (\<forall>e. lookup_lens lens (py_split '','' (exons gi)) = Inl e
       \<longrightarrow> fst (process_gene lens num_mapped gi st) = Some e \<and> (\<exists>k. e = KeyError k))
   \<and> fst (process_gene lens num_mapped gi st) \<noteq> Some AssertionError
   \<and> (\<forall>cs ls st1. length cs \<noteq> length ls
       \<longrightarrow> append_rpkm_entry num_mapped gi cs ls st1 = (Some AssertionError, st1))
   \<and> (\<forall>cs ls st1. length cs = length ls
       \<longrightarrow> fst (append_rpkm_entry num_mapped gi cs ls st1) \<noteq> Some AssertionError
         \<and> rpkm_calls (snd (append_rpkm_entry num_mapped gi cs ls st1))
             = rpkm_calls st1 @ [(sum_list cs, sum_list ls, num_mapped)])"
proof (intro conjI allI impI)
  fix curr_counts tbl' curr_lens
  assume a: "lookup_counts (map strandless_exon (py_split '','' (exons gi))) (table st)
         = (curr_counts, tbl')
       \<and> lookup_lens lens (py_split '','' (exons gi)) = Inr curr_lens"
  then have c: "lookup_counts (map strandless_exon (py_split '','' (exons gi))) (table st)
         = (curr_counts, tbl')"
    and l: "lookup_lens lens (py_split '','' (exons gi)) = Inr curr_lens" by simp_all
  from lookup_counts_length [OF c]
  show lc: "length curr_counts = length (py_split '','' (exons gi))" by simp
  from lookup_lens_length [OF l]
  show ll: "length curr_lens = length (py_split '','' (exons gi))" .
  from lc ll show "assert_same_length curr_counts curr_lens = Inr ()"
    by (simp add: assert_same_length_def)
  from process_gene_lookups(1) [OF c l]
  show "process_gene lens num_mapped gi st
             = append_rpkm_entry num_mapped gi curr_counts curr_lens (st\<lparr>table := tbl'\<rparr>)" .
next
  fix e
  assume l: "lookup_lens lens (py_split '','' (exons gi)) = Inl e"
  obtain cs t where c: "lookup_counts (map strandless_exon (py_split '','' (exons gi))) (table st)
         = (cs, t)"
    by (cases "lookup_counts (map strandless_exon (py_split '','' (exons gi))) (table st)")
  from process_gene_lookups(2) [OF c l]
  show "fst (process_gene lens num_mapped gi st) = Some e" by simp
  from lookup_lens_error [OF l] show "\<exists>k. e = KeyError k" .
next
  show "fst (process_gene lens num_mapped gi st) \<noteq> Some AssertionError"
    by (rule process_gene_no_assertion)
next
  fix cs ls :: "int list" and st1
  assume "length cs \<noteq> length ls"
  then show "append_rpkm_entry num_mapped gi cs ls st1 = (Some AssertionError, st1)"
    by (rule append_rpkm_entry_mismatch)
next
  fix cs ls :: "int list" and st1
  assume e: "length cs = length ls"
  from append_rpkm_entry_match(1) [OF e]
  show "fst (append_rpkm_entry num_mapped gi cs ls st1) \<noteq> Some AssertionError" .
  from append_rpkm_entry_match(2) [OF e]
  show "rpkm_calls (snd (append_rpkm_entry num_mapped gi cs ls st1))
             = rpkm_calls st1 @ [(sum_list cs, sum_list ls, num_mapped)]" .
qed

theorem count_and_length_lookups_agree_witness:
  "process_gene [''chr1:100-200:+'' \<mapsto> 101, ''chr1:300-400:-'' \<mapsto> 101] 1000000
       \<lparr>gene_id = ''g1'', exons = ''chr1:100-200:+,chr1:300-400:-''\<rparr>
       \<lparr>table = [''chr1:100-200'' \<mapsto> 3], rpkm_table = [], rpkm_calls = []\<rparr>
     = append_rpkm_entry 1000000 \<lparr>gene_id = ''g1'', exons = ''chr1:100-200:+,chr1:300-400:-''\<rparr>
         [3, 0] [101, 101]
         \<lparr>table = [''chr1:100-200'' \<mapsto> 3, ''chr1:300-400'' \<mapsto> 0], rpkm_table = [],
          rpkm_calls = []\<rparr>
   \<and> rpkm_calls (snd (process_gene [''chr1:100-200:+'' \<mapsto> 101, ''chr1:300-400:-'' \<mapsto> 101]
       1000000 \<lparr>gene_id = ''g1'', exons = ''chr1:100-200:+,chr1:300-400:-''\<rparr>
       \<lparr>table = [''chr1:100-200'' \<mapsto> 3], rpkm_table = [], rpkm_calls = []\<rparr>))
     = [(3, 202, 1000000)]
   \<and> fst (process_gene [''chr1:100-200:+'' \<mapsto> 101] 1000000
       \<lparr>gene_id = ''g1'', exons = ''chr1:100-200:+,chr1:300-400:-''\<rparr>
       \<lparr>table = [''chr1:100-200'' \<mapsto> 3], rpkm_table = [], rpkm_calls = []\<rparr>)
     = Some (KeyError ''chr1:300-400:-'')
   \<and> append_rpkm_entry 1000000 \<lparr>gene_id = ''g1'', exons = ''chr1:100-200:+,chr1:300-400:-''\<rparr>
         [3, 0] [101] \<lparr>table = Map.empty, rpkm_table = [], rpkm_calls = []\<rparr>
     = (Some AssertionError, \<lparr>table = Map.empty, rpkm_table = [], rpkm_calls = []\<rparr>)"
proof -
  let ?gi = "\<lparr>gene_id = ''g1'', exons = ''chr1:100-200:+,chr1:300-400:-''\<rparr>"
  let ?st = "\<lparr>table = [''chr1:100-200'' \<mapsto> 3], rpkm_table = [], rpkm_calls = []\<rparr>"
  let ?st1 = "\<lparr>table = [''chr1:100-200'' \<mapsto> 3, ''chr1:300-400'' \<mapsto> 0], rpkm_table = [],
          rpkm_calls = []\<rparr>"
  let ?e = "\<lparr>table = Map.empty, rpkm_table = [], rpkm_calls = []\<rparr> :: agg_state"
  let ?lens = "[''chr1:100-200:+'' \<mapsto> 101, ''chr1:300-400:-'' \<mapsto> (101::int)]"
  let ?lens1 = "[''chr1:100-200:+'' \<mapsto> (101::int)]"
  have p: "py_split '','' ''chr1:100-200:+,chr1:300-400:-''
             = [''chr1:100-200:+'', ''chr1:300-400:-'']"
    by (simp add: py_split_def startswith_def)
  have s: "strandless_exon ''chr1:100-200:+'' = ''chr1:100-200''"
    "strandless_exon ''chr1:300-400:-'' = ''chr1:300-400''"
    by (simp_all add: strandless_exon_def startswith_def)
  have c: "lookup_counts (map strandless_exon (py_split '','' (exons ?gi))) (table ?st)
             = ([3, 0], [''chr1:100-200'' \<mapsto> 3, ''chr1:300-400'' \<mapsto> 0])"
    by (simp add: p s dd_get_def)
  have l: "lookup_lens ?lens (py_split '','' (exons ?gi)) = Inr [101, 101]"
    by (simp add: p)
  have l1: "lookup_lens ?lens1 (py_split '','' (exons ?gi)) = Inl (KeyError ''chr1:300-400:-'')"
    by (simp add: p)
  have n: "length [3, 0 :: int] \<noteq> length [101 :: int]" by simp
  have m: "length [3, 0 :: int] = length [101, 101 :: int]" by simp
  have u: "?st\<lparr>table := [''chr1:100-200'' \<mapsto> 3, ''chr1:300-400'' \<mapsto> 0]\<rparr> = ?st1" by simp
  note t = count_and_length_lookups_agree [of ?gi ?st ?lens 1000000]
  note t1 = count_and_length_lookups_agree [of ?gi ?st ?lens1 1000000]
  from t [THEN conjunct1, THEN spec, THEN spec, THEN spec, THEN mp, OF conjI [OF c l]]
  have eq0: "process_gene ?lens 1000000 ?gi ?st
         = append_rpkm_entry 1000000 ?gi [3, 0] [101, 101]
             (?st\<lparr>table := [''chr1:100-200'' \<mapsto> 3, ''chr1:300-400'' \<mapsto> 0]\<rparr>)"
    by blast
  then have eq: "process_gene ?lens 1000000 ?gi ?st
         = append_rpkm_entry 1000000 ?gi [3, 0] [101, 101] ?st1"
    by (simp only: u)
  from t [THEN conjunct2, THEN conjunct2, THEN conjunct2, THEN conjunct2, THEN spec, THEN spec,
      THEN spec, THEN mp, OF m, THEN conjunct2, of ?st1]
  have "rpkm_calls (snd (append_rpkm_entry 1000000 ?gi [3, 0] [101, 101] ?st1))
          = [(3, 202, 1000000)]" by simp
  with eq have calls: "rpkm_calls (snd (process_gene ?lens 1000000 ?gi ?st)) = [(3, 202, 1000000)]"
    by (simp only:)
  from t1 [THEN conjunct2, THEN conjunct1, THEN spec, THEN mp, OF l1]
  have ke: "fst (process_gene ?lens1 1000000 ?gi ?st) = Some (KeyError ''chr1:300-400:-'')"
    by (rule conjunct1)
  from t [THEN conjunct2, THEN conjunct2, THEN conjunct2, THEN conjunct1, THEN spec, THEN spec,
      THEN spec, THEN mp, OF n, of ?e]
  have ae: "append_rpkm_entry 1000000 ?gi [3, 0] [101] ?e = (Some AssertionError, ?e)" .
  show ?thesis by (rule conjI [OF eq conjI [OF calls conjI [OF ke ae]]])
qed

lemma dd_get_count_of: "dd_get tbl k = (v, tbl') \<Longrightarrow> v = count_of tbl k \<and> count_of tbl' k' = count_of tbl k'"
  by (auto simp: dd_get_def count_of_def split: option.splits if_splits)

lemma dd_get_keeps: "dd_get tbl k = (v, tbl') \<Longrightarrow> tbl k' = Some w \<Longrightarrow> tbl' k' = Some w"
  by (auto simp: dd_get_def split: option.splits)

lemma dd_get_new: "dd_get tbl k = (v, tbl') \<Longrightarrow> dom tbl' = insert k (dom tbl)"
  by (auto simp: dd_get_def split: option.splits)

lemma lookup_counts_frame:
  "lookup_counts ks tbl = (vs, tbl') \<Longrightarrow>
     vs = map (count_of tbl) ks
   \<and> (\<forall>k. count_of tbl' k = count_of tbl k)
   \<and> (\<forall>k w. tbl k = Some w \<longrightarrow> tbl' k = Some w)
   \<and> dom tbl' = dom tbl \<union> set ks"
proof (induction ks arbitrary: tbl vs tbl')
  case Nil
  then show ?case by simp
next
  case (Cons k ks)
  obtain v tbl1 where g: "dd_get tbl k = (v, tbl1)" by (cases "dd_get tbl k")
  obtain ws tbl2 where r: "lookup_counts ks tbl1 = (ws, tbl2)"
    by (cases "lookup_counts ks tbl1")
  from Cons.prems g r have e: "vs = v # ws" "tbl' = tbl2" by simp_all
  from Cons.IH [OF r] dd_get_count_of [OF g] dd_get_keeps [OF g] dd_get_new [OF g] e
  show ?case by auto
qed

lemma process_gene_table:
  "table (snd (process_gene lens num_mapped gi st))
     = snd (lookup_counts (map strandless_exon (py_split '','' (exons gi))) (table st))"
  by (simp add: process_gene_def append_rpkm_entry_def Let_def split: prod.splits sum.splits)

lemma process_gene_frame:
  "process_gene lens num_mapped gi st = (r, st') \<Longrightarrow>
     (\<forall>k. count_of (table st') k = count_of (table st) k)
   \<and> (\<forall>k w. table st k = Some w \<longrightarrow> table st' k = Some w)
   \<and> dom (table st') = dom (table st) \<union> set (map strandless_exon (py_split '','' (exons gi)))"
proof -
  assume a: "process_gene lens num_mapped gi st = (r, st')"
  obtain vs t where l: "lookup_counts (map strandless_exon (py_split '','' (exons gi))) (table st) = (vs, t)"
    by (cases "lookup_counts (map strandless_exon (py_split '','' (exons gi))) (table st)")
  have "table st' = t" using process_gene_table [of lens num_mapped gi st] a l by simp
  with lookup_counts_frame [OF l] show ?thesis by simp
qed

lemma aggregate_frame:
  "aggregate na_val lens num_mapped genes st = (r, st') \<Longrightarrow>
     (\<forall>k. count_of (table st') k = count_of (table st) k)
   \<and> (\<forall>k w. table st k = Some w \<longrightarrow> table st' k = Some w)
   \<and> (\<forall>k. k \<in> dom (table st') \<and> k \<notin> dom (table st) \<longrightarrow> table st' k = Some 0 \<and> k \<in> looked_up na_val genes)"
proof (induction genes arbitrary: st)
  case Nil
  then show ?case by auto
next
  case (Cons gi genes)
  show ?case
  proof (cases "exons gi = na_val")
    case True
    with Cons.prems have "aggregate na_val lens num_mapped genes st = (r, st')" by simp
    from Cons.IH [OF this] True show ?thesis by simp
  next
    case False
    obtain r1 st1 where p: "process_gene lens num_mapped gi st = (r1, st1)"
      by (cases "process_gene lens num_mapped gi st")
    note f = process_gene_frame [OF p]
    have sub: "set (map strandless_exon (py_split '','' (exons gi))) \<subseteq> looked_up na_val (gi # genes)"
      "looked_up na_val genes \<subseteq> looked_up na_val (gi # genes)"
      using False by auto
    have new1: "\<forall>k. k \<in> dom (table st1) \<and> k \<notin> dom (table st) \<longrightarrow> table st1 k = Some 0"
    proof (intro allI impI)
      fix k assume k: "k \<in> dom (table st1) \<and> k \<notin> dom (table st)"
      then obtain w where w: "table st1 k = Some w" by auto
      from k have "table st k = None" by auto
      then have "count_of (table st) k = 0" by (simp add: count_of_def)
      with f have "count_of (table st1) k = 0" by simp
      with w show "table st1 k = Some 0" by (simp add: count_of_def)
    qed
    show ?thesis
    proof (cases r1)
      case None
      with Cons.prems False p have "aggregate na_val lens num_mapped genes st1 = (r, st')" by simp
      note ih = Cons.IH [OF this]
      show ?thesis
      proof (intro conjI allI impI)
        fix k show "count_of (table st') k = count_of (table st) k" using ih f by simp
      next
        fix k w assume "table st k = Some w" then show "table st' k = Some w" using ih f by blast
      next
        fix k assume k: "k \<in> dom (table st') \<and> k \<notin> dom (table st)"
        show "table st' k = Some 0"
        proof (cases "k \<in> dom (table st1)")
          case True
          with k new1 have "table st1 k = Some 0" by blast
          with ih show ?thesis by blast
        next
          case False
          with k ih show ?thesis by blast
        qed
      next
        fix k assume k: "k \<in> dom (table st') \<and> k \<notin> dom (table st)"
        show "k \<in> looked_up na_val (gi # genes)"
        proof (cases "k \<in> dom (table st1)")
          case True
          with k f sub show ?thesis by auto
        next
          case False
          with k ih sub show ?thesis by blast
        qed
      qed
    next
      case (Some e)
      with Cons.prems False p have "st' = st1" by simp
      with f new1 sub show ?thesis by auto
    qed
  qed
qed

lemma aggregate_dom:
  "aggregate na_val lens num_mapped genes st = (None, st') \<Longrightarrow>
     dom (table st') = dom (table st) \<union> looked_up na_val genes"
proof (induction genes arbitrary: st)
  case Nil
  then show ?case by simp
next
  case (Cons gi genes)
  show ?case
  proof (cases "exons gi = na_val")
    case True
    with Cons.prems have "aggregate na_val lens num_mapped genes st = (None, st')" by simp
    from Cons.IH [OF this] True show ?thesis by simp
  next
    case False
    obtain r1 st1 where p: "process_gene lens num_mapped gi st = (r1, st1)"
      by (cases "process_gene lens num_mapped gi st")
    from Cons.prems False p have r1: "r1 = None"
      by (cases r1) simp_all
    with Cons.prems False p have "aggregate na_val lens num_mapped genes st1 = (None, st')"
      by simp
    from Cons.IH [OF this] process_gene_frame [OF p] False show ?thesis by auto
  qed
qed

text \<open>
  C9 (as amended). The aggregation phase changes no count of the table, an absent key
  counting as zero, and changes no entry the table already holds; but every count lookup
  of an absent key adds that key with the count zero: each added entry is a key that was
  looked up and holds zero, and after an aggregation that ran to its end the keys of the
  table are those it had before together with every key that was looked up.
\<close>

theorem aggregation_table_frame:
  "aggregate na_val lens num_mapped genes st = (r, st') \<Longrightarrow>
     (\<forall>k. count_of (table st') k = count_of (table st) k)
   \<and> (\<forall>k w. table st k = Some w \<longrightarrow> table st' k = Some w)
   \<and> (\<forall>k. k \<in> dom (table st') \<and> k \<notin> dom (table st) \<longrightarrow> table st' k = Some 0 \<and> k \<in> looked_up na_val genes)
   \<and> (r = None \<longrightarrow> dom (table st') = dom (table st) \<union> looked_up na_val genes)"
proof -
  assume a: "aggregate na_val lens num_mapped genes st = (r, st')"
  have "r = None \<longrightarrow> dom (table st') = dom (table st) \<union> looked_up na_val genes"
  proof
    assume "r = None"
    with a have "aggregate na_val lens num_mapped genes st = (None, st')" by simp
    then show "dom (table st') = dom (table st) \<union> looked_up na_val genes"
      by (rule aggregate_dom)
  qed
  with aggregate_frame [OF a] show ?thesis by blast
qed

text \<open>
  C9 as stated fails: the count lookup of a key that the counting pass never stored adds
  an entry for it to the table.
\<close>

theorem aggregation_adds_entries_counterexample:
  "table (snd (aggregate ''NA'' [''chr1:300-400:-'' \<mapsto> 101] 1000000
                 [\<lparr>gene_id = ''g1'', exons = ''chr1:300-400:-''\<rparr>]
                 \<lparr>table = Map.empty, rpkm_table = [], rpkm_calls = []\<rparr>)) ''chr1:300-400''
     = Some 0
   \<and> table \<lparr>table = Map.empty, rpkm_table = [], rpkm_calls = []\<rparr> ''chr1:300-400'' = None"
proof -
  have p: "py_split '','' ''chr1:300-400:-'' = [''chr1:300-400:-'']"
    by (simp add: py_split_def startswith_def)
  have s: "strandless_exon ''chr1:300-400:-'' = ''chr1:300-400''"
    by (simp add: strandless_exon_def startswith_def)
  obtain v where v: "compute_rpkm 0 101 1000000 = Inr v"
    using compute_rpkm_returns [of 101 1000000 0] by auto
  show ?thesis
    by (simp add: process_gene_def append_rpkm_entry_def p s v dd_get_def
        assert_same_length_def Let_def)
qed

theorem aggregation_table_frame_witness:
  "\<exists>st'. aggregate ''NA'' [''chr1:300-400:-'' \<mapsto> 101] 1000000
            [\<lparr>gene_id = ''g0'', exons = ''NA''\<rparr>, \<lparr>gene_id = ''g1'', exons = ''chr1:300-400:-''\<rparr>]
            \<lparr>table = [''chr1:100-200'' \<mapsto> 3], rpkm_table = [], rpkm_calls = []\<rparr> = (None, st')
     \<and> count_of (table st') ''chr1:300-400'' = 0
     \<and> table st' ''chr1:100-200'' = Some 3
     \<and> dom (table st') = {''chr1:100-200'', ''chr1:300-400''}"
proof -
  let ?genes = "[\<lparr>gene_id = ''g0'', exons = ''NA''\<rparr>, \<lparr>gene_id = ''g1'', exons = ''chr1:300-400:-''\<rparr>]"
  let ?st = "\<lparr>table = [''chr1:100-200'' \<mapsto> 3], rpkm_table = [], rpkm_calls = []\<rparr>"
  let ?run = "aggregate ''NA'' [''chr1:300-400:-'' \<mapsto> 101] 1000000 ?genes ?st"
  have p: "py_split '','' ''chr1:300-400:-'' = [''chr1:300-400:-'']"
    by (simp add: py_split_def startswith_def)
  have s: "strandless_exon ''chr1:300-400:-'' = ''chr1:300-400''"
    by (simp add: strandless_exon_def startswith_def)
  obtain v where v: "compute_rpkm 0 101 1000000 = Inr v"
    using compute_rpkm_returns [of 101 1000000 0] by auto
  have r: "fst ?run = None"
    by (simp add: process_gene_def append_rpkm_entry_def p s v dd_get_def
        assert_same_length_def Let_def)
  then have e: "?run = (None, snd ?run)" by (metis prod.collapse)
  have lu: "looked_up ''NA'' ?genes = {''chr1:300-400''}"
    by (simp add: p s)
  note t = aggregation_table_frame [OF e]
  from t have "count_of (table (snd ?run)) ''chr1:300-400'' = count_of (table ?st) ''chr1:300-400''"
    and "table ?st ''chr1:100-200'' = Some 3 \<longrightarrow> table (snd ?run) ''chr1:100-200'' = Some 3"
    and "dom (table (snd ?run)) = dom (table ?st) \<union> looked_up ''NA'' ?genes"
    by blast+
  then have "count_of (table (snd ?run)) ''chr1:300-400'' = 0"
    and "table (snd ?run) ''chr1:100-200'' = Some 3"
    and "dom (table (snd ?run)) = {''chr1:100-200'', ''chr1:300-400''}"
    by (auto simp add: count_of_def p s)
  with e show ?thesis by blast
qed

text \<open>
  C2. When the identifier, without its last two characters, holds the separator more
  than once, the count key is the text between the first and the second separator, not
  everything after the first one.
\<close>

theorem strandless_exon_second_separator:
  "strandless_exon ''chr1.exon.5_+'' = ''exon''
   \<and> spec_normalize ''chr1.exon.5_+'' = ''exon.5''"
  by (simp add: strandless_exon_def spec_normalize_def py_split_def startswith_def)

text \<open>The identifier of the specification's example has one separator; there the two agree.\<close>

lemma strandless_exon_example:
  "strandless_exon ''chr1.exon5_+'' = ''exon5'' \<and> spec_normalize ''chr1.exon5_+'' = ''exon5''"
  by (simp add: strandless_exon_def spec_normalize_def py_split_def startswith_def)


subsection \<open>IntervalTagger\<close>

lemmas path_evals = bam2gff_output_def bam2gff_dir_def path_join_def basename_def startswith_def
lemmas relay_evals = relay_def relay_line_def py_split_def startswith_def tagBam_cmd_def

lemma map_bam2gff_subproc_path:
  "fst (map_bam2gff_subproc w bam gff od lab s) = Inr p \<Longrightarrow> p = bam2gff_output od gff bam"
  by (simp add: map_bam2gff_subproc_def Let_def split: if_splits)

lemma map_bam2gff_subproc_dir:
  "isdir (snd (map_bam2gff_subproc w bam gff od lab s)) (bam2gff_dir od gff)"
  by (simp add: map_bam2gff_subproc_def Let_def isdir_def makedirs_def log_msg_def popen_def)

lemma map_bam2gff_subproc_skip_eq:
  assumes "isfile s (bam2gff_output od gff bam)"
  shows "map_bam2gff_subproc w bam gff od lab s =
           (Inr (bam2gff_output od gff bam),
            if isdir s (bam2gff_dir od gff) then s else makedirs (bam2gff_dir od gff) s)"
  using assms by (simp add: map_bam2gff_subproc_def Let_def isfile_def makedirs_def)

text \<open>
  C4. If the destination file already exists, \<open>map_bam2gff_subproc\<close> returns its path
  and starts no subprocess. Two successive calls with the same arguments that both return
  give the same path; and when the file exists after a call that returned, the next call
  returns the same path and leaves the whole state, the list of started commands
  included, as it was.
\<close>

theorem map_bam2gff_subproc_skip:
  "(isfile s (bam2gff_output od gff bam) \<longrightarrow>
      fst (map_bam2gff_subproc w bam gff od lab s) = Inr (bam2gff_output od gff bam)
    \<and> launched (snd (map_bam2gff_subproc w bam gff od lab s)) = launched s)
   \<and> (\<forall>p s' p' s''.
        map_bam2gff_subproc w bam gff od lab s = (Inr p, s')
        \<and> map_bam2gff_subproc w bam gff od lab s' = (Inr p', s'') \<longrightarrow> p' = p)
   \<and> (\<forall>p s'.
        map_bam2gff_subproc w bam gff od lab s = (Inr p, s') \<and> isfile s' p \<longrightarrow>
        map_bam2gff_subproc w bam gff od lab s' = (Inr p, s'))"
proof (intro conjI allI impI)
  assume a: "isfile s (bam2gff_output od gff bam)"
  show "fst (map_bam2gff_subproc w bam gff od lab s) = Inr (bam2gff_output od gff bam)"
    by (simp add: map_bam2gff_subproc_skip_eq [OF a])
  show "launched (snd (map_bam2gff_subproc w bam gff od lab s)) = launched s"
    by (simp add: map_bam2gff_subproc_skip_eq [OF a] makedirs_def)
next
  fix p s' p' s''
  assume "map_bam2gff_subproc w bam gff od lab s = (Inr p, s')
        \<and> map_bam2gff_subproc w bam gff od lab s' = (Inr p', s'')"
  then have "fst (map_bam2gff_subproc w bam gff od lab s) = Inr p"
    and "fst (map_bam2gff_subproc w bam gff od lab s') = Inr p'" by simp_all
  then show "p' = p" using map_bam2gff_subproc_path by blast
next
  fix p s'
  assume a: "map_bam2gff_subproc w bam gff od lab s = (Inr p, s') \<and> isfile s' p"
  then have "fst (map_bam2gff_subproc w bam gff od lab s) = Inr p" by simp
  then have p: "p = bam2gff_output od gff bam" by (rule map_bam2gff_subproc_path)
  have d: "isdir s' (bam2gff_dir od gff)"
    using map_bam2gff_subproc_dir [of w bam gff od lab s] a by simp
  from a p have "isfile s' (bam2gff_output od gff bam)" by simp
  from map_bam2gff_subproc_skip_eq [OF this] d p
  show "map_bam2gff_subproc w bam gff od lab s' = (Inr p, s')" by simp
qed

theorem map_bam2gff_subproc_skip_witness:
  "\<exists>s1. map_bam2gff_subproc
           \<lparr>which = (\<lambda>prog. prog = ''tagBam''), make_dir = insert,
            tagBam_stdout = (\<lambda>cmd. [''@HD'' @ [CHR 0x09] @ ''VN:1.0'',
                                      ''r1'' @ [CHR 0x09] @ ''YB:Z:gff:chr1:99-200,+'']),
            tagBam_wait = (\<lambda>cmd. 0),
            bam_communicate = (\<lambda>cmd lines. \<lparr>returncode = 0, output_text = [], wrote_file = True\<rparr>),
            read_bam = (\<lambda>f. Inr [])\<rparr>
           ''/data/s1.bam'' ''/g/exons.gff'' ''out'' ''gff''
           \<lparr>dirs = {}, files = {}, launched = [], logged = [], rpkm_files = Map.empty,
            compute_rpkm_calls = []\<rparr>
         = (Inr ''out/bam2gff_exons.gff/s1.bam'', s1)
      \<and> length (launched s1) = 2
      \<and> map_bam2gff_subproc
           \<lparr>which = (\<lambda>prog. prog = ''tagBam''), make_dir = insert,
            tagBam_stdout = (\<lambda>cmd. [''@HD'' @ [CHR 0x09] @ ''VN:1.0'',
                                      ''r1'' @ [CHR 0x09] @ ''YB:Z:gff:chr1:99-200,+'']),
            tagBam_wait = (\<lambda>cmd. 0),
            bam_communicate = (\<lambda>cmd lines. \<lparr>returncode = 0, output_text = [], wrote_file = True\<rparr>),
            read_bam = (\<lambda>f. Inr [])\<rparr>
           ''/data/s1.bam'' ''/g/exons.gff'' ''out'' ''gff'' s1
         = (Inr ''out/bam2gff_exons.gff/s1.bam'', s1)"
proof -
  let ?w = "\<lparr>which = (\<lambda>prog. prog = ''tagBam''), make_dir = insert,
            tagBam_stdout = (\<lambda>cmd. [''@HD'' @ [CHR 0x09] @ ''VN:1.0'',
                                      ''r1'' @ [CHR 0x09] @ ''YB:Z:gff:chr1:99-200,+'']),
            tagBam_wait = (\<lambda>cmd. 0),
            bam_communicate = (\<lambda>cmd lines. \<lparr>returncode = 0, output_text = [], wrote_file = True\<rparr>),
            read_bam = (\<lambda>f. Inr [])\<rparr>"
  let ?s0 = "\<lparr>dirs = {}, files = {}, launched = [], logged = [], rpkm_files = Map.empty,
            compute_rpkm_calls = []\<rparr>"
  let ?run = "map_bam2gff_subproc ?w ''/data/s1.bam'' ''/g/exons.gff'' ''out'' ''gff''"
  let ?p = "''out/bam2gff_exons.gff/s1.bam''"
  have out: "bam2gff_output ''out'' ''/g/exons.gff'' ''/data/s1.bam'' = ?p"
    by (simp add: path_evals)
  have r: "relay ''gff'' [''@HD'' @ [CHR 0x09] @ ''VN:1.0'',
                           ''r1'' @ [CHR 0x09] @ ''YB:Z:gff:chr1:99-200,+'']
            = \<lparr>forwarded = [''@HD'' @ [CHR 0x09] @ ''VN:1.0'',
                             ''r1'' @ [CHR 0x09] @ ''YB:Z:gff:chr1:99-200,+''],
               num_headers = 1, num_hits = 1, num_skipped_reads = 0\<rparr>"
    by (simp add: relay_evals)
  have first: "fst (?run ?s0) = Inr ?p" "length (launched (snd (?run ?s0))) = 2"
    "isfile (snd (?run ?s0)) ?p"
    using r
    by (simp_all add: map_bam2gff_subproc_def out Let_def isfile_def isdir_def makedirs_def
        popen_def)
  then have e: "?run ?s0 = (Inr ?p, snd (?run ?s0))" by (metis prod.collapse)
  have f3: "isfile (snd (?run ?s0)) (bam2gff_output ''out'' ''/g/exons.gff'' ''/data/s1.bam'')"
    by (simp only: out first(3))
  note again = map_bam2gff_subproc_skip [of "snd (?run ?s0)" "''out''" "''/g/exons.gff''"
      "''/data/s1.bam''" ?w "''gff''", THEN conjunct1, THEN mp, OF f3]
  have l2: "launched (snd (?run (snd (?run ?s0)))) = launched (snd (?run ?s0))"
    by (rule again [THEN conjunct2])
  have second: "?run (snd (?run ?s0)) = (Inr ?p, snd (?run ?s0))"
    by (rule map_bam2gff_subproc_skip [of ?s0 "''out''" "''/g/exons.gff''" "''/data/s1.bam''"
          ?w "''gff''", THEN conjunct2, THEN conjunct2, THEN spec, THEN spec, THEN mp,
          OF conjI [OF e first(3)]])
  show ?thesis
    by (rule exI [of _ "snd (?run ?s0)"]) (rule conjI [OF e conjI [OF first(2) second]])
qed

text \<open>
  C10. On the skip path the directory check and creation come before the test for the
  output file: the state after the call is the state before it, except that the output
  subdirectory (with the leading directories of its path) has been added when it was not
  a directory; the directory exists afterwards and the set of files is unchanged.
\<close>

theorem skip_path_effect:
  assumes "isfile s (bam2gff_output od gff bam)"
  shows "snd (map_bam2gff_subproc w bam gff od lab s)
           = (if isdir s (bam2gff_dir od gff) then s
              else s\<lparr>dirs := dirs s \<union> set (leading_dirs (bam2gff_dir od gff))
                                    \<union> {bam2gff_dir od gff}\<rparr>)
         \<and> isdir (snd (map_bam2gff_subproc w bam gff od lab s)) (bam2gff_dir od gff)
         \<and> files (snd (map_bam2gff_subproc w bam gff od lab s)) = files s"
  using assms
  by (simp add: map_bam2gff_subproc_def Let_def isfile_def isdir_def makedirs_def)

theorem skip_path_effect_witness:
  "snd (map_bam2gff_subproc
         \<lparr>which = (\<lambda>prog. False), make_dir = insert,
            tagBam_stdout = (\<lambda>cmd. []), tagBam_wait = (\<lambda>cmd. 0),
            bam_communicate = (\<lambda>cmd lines. \<lparr>returncode = 0, output_text = [], wrote_file = False\<rparr>),
            read_bam = (\<lambda>f. Inr [])\<rparr>
         ''/data/s1.bam'' ''/g/exons.gff'' ''out'' ''gff''
         \<lparr>dirs = {''out'', ''out/bam2gff_exons.gff''}, files = {''out/bam2gff_exons.gff/s1.bam''},
          launched = [], logged = [], rpkm_files = Map.empty, compute_rpkm_calls = []\<rparr>)
     = \<lparr>dirs = {''out'', ''out/bam2gff_exons.gff''}, files = {''out/bam2gff_exons.gff/s1.bam''},
          launched = [], logged = [], rpkm_files = Map.empty, compute_rpkm_calls = []\<rparr>
   \<and> snd (map_bam2gff_subproc
         \<lparr>which = (\<lambda>prog. False), make_dir = insert,
            tagBam_stdout = (\<lambda>cmd. []), tagBam_wait = (\<lambda>cmd. 0),
            bam_communicate = (\<lambda>cmd lines. \<lparr>returncode = 0, output_text = [], wrote_file = False\<rparr>),
            read_bam = (\<lambda>f. Inr [])\<rparr>
         ''/data/s1.bam'' ''/g/exons.gff'' ''out'' ''gff''
         \<lparr>dirs = {}, files = {''out/bam2gff_exons.gff/s1.bam''},
          launched = [], logged = [], rpkm_files = Map.empty, compute_rpkm_calls = []\<rparr>)
     = \<lparr>dirs = {''out'', ''out/bam2gff_exons.gff''}, files = {''out/bam2gff_exons.gff/s1.bam''},
          launched = [], logged = [], rpkm_files = Map.empty, compute_rpkm_calls = []\<rparr>"
proof -
  let ?w = "\<lparr>which = (\<lambda>prog. False), make_dir = insert,
            tagBam_stdout = (\<lambda>cmd. []), tagBam_wait = (\<lambda>cmd. 0),
            bam_communicate = (\<lambda>cmd lines. \<lparr>returncode = 0, output_text = [], wrote_file = False\<rparr>),
            read_bam = (\<lambda>f. Inr [])\<rparr>"
  let ?sa = "\<lparr>dirs = {''out'', ''out/bam2gff_exons.gff''}, files = {''out/bam2gff_exons.gff/s1.bam''},
          launched = [], logged = [], rpkm_files = Map.empty, compute_rpkm_calls = []\<rparr>"
  let ?sb = "\<lparr>dirs = {}, files = {''out/bam2gff_exons.gff/s1.bam''},
          launched = [], logged = [], rpkm_files = Map.empty, compute_rpkm_calls = []\<rparr>"
  have out: "bam2gff_output ''out'' ''/g/exons.gff'' ''/data/s1.bam'' = ''out/bam2gff_exons.gff/s1.bam''"
    and d: "bam2gff_dir ''out'' ''/g/exons.gff'' = ''out/bam2gff_exons.gff''"
    by (simp_all add: path_evals)
  have l: "set (leading_dirs ''out/bam2gff_exons.gff'') = {''out''}"
    by (simp add: leading_dirs_def upt_rec)
  have fa: "isfile ?sa (bam2gff_output ''out'' ''/g/exons.gff'' ''/data/s1.bam'')"
    and fb: "isfile ?sb (bam2gff_output ''out'' ''/g/exons.gff'' ''/data/s1.bam'')"
    by (simp_all add: out isfile_def)
  from skip_path_effect [OF fa, of ?w "''gff''"] skip_path_effect [OF fb, of ?w "''gff''"]
  show ?thesis by (auto simp add: d l isdir_def)
qed

text \<open>
  C5. When the output file does not exist yet, the tagging tool is found, and no header
  line was forwarded while draining the tool's output, the call does not return a path:
  it logs the error \<^verbatim>\<open>tagBam call failed.\<close> and ends by an exception (the
  \<^verbatim>\<open>UnboundLocalError\<close> described above).
\<close>

theorem zero_headers_abort:
  assumes "\<not> isfile s (bam2gff_output od gff bam)"
    and "which w ''tagBam''"
    and "num_headers (relay lab (tagBam_stdout w (tagBam_cmd bam gff lab))) = 0"
  shows "fst (map_bam2gff_subproc w bam gff od lab s) = Inl UnboundLocalError
       \<and> (\<forall>p. fst (map_bam2gff_subproc w bam gff od lab s) \<noteq> Inr p)
       \<and> logged (snd (map_bam2gff_subproc w bam gff od lab s))
           = logged s @ [(ERROR, ''tagBam call failed.'')]"
  using assms
  by (simp add: map_bam2gff_subproc_def Let_def isfile_def makedirs_def log_msg_def popen_def)

theorem zero_headers_abort_witness:
  "fst (map_bam2gff_subproc
          \<lparr>which = (\<lambda>prog. prog = ''tagBam''), make_dir = insert,
           tagBam_stdout = (\<lambda>cmd. [''*****ERROR: Unrecognized parameter''] ),
           tagBam_wait = (\<lambda>cmd. 1),
           bam_communicate = (\<lambda>cmd lines. \<lparr>returncode = 1, output_text = ''[main_samview] truncated file.'', wrote_file = True\<rparr>),
           read_bam = (\<lambda>f. Inr [])\<rparr>
          ''/data/s1.bam'' ''/g/exons.gff'' ''out'' ''gff''
          \<lparr>dirs = {}, files = {}, launched = [], logged = [], rpkm_files = Map.empty,
           compute_rpkm_calls = []\<rparr>) = Inl UnboundLocalError"
proof -
  let ?w = "\<lparr>which = (\<lambda>prog. prog = ''tagBam''), make_dir = insert,
           tagBam_stdout = (\<lambda>cmd. [''*****ERROR: Unrecognized parameter'']),
           tagBam_wait = (\<lambda>cmd. 1),
           bam_communicate = (\<lambda>cmd lines. \<lparr>returncode = 1, output_text = ''[main_samview] truncated file.'', wrote_file = True\<rparr>),
           read_bam = (\<lambda>f. Inr [])\<rparr>"
  let ?s0 = "\<lparr>dirs = {}, files = {}, launched = [], logged = [], rpkm_files = Map.empty,
            compute_rpkm_calls = []\<rparr>"
  have a: "\<not> isfile ?s0 (bam2gff_output ''out'' ''/g/exons.gff'' ''/data/s1.bam'')"
    by (simp add: isfile_def)
  have b: "which ?w ''tagBam''" by simp
  have c: "num_headers (relay ''gff''
             (tagBam_stdout ?w (tagBam_cmd ''/data/s1.bam'' ''/g/exons.gff'' ''gff''))) = 0"
    by (simp add: relay_def relay_line_def py_split_def startswith_def)
  show ?thesis by (rule zero_headers_abort [OF a b c, THEN conjunct1])
qed

text \<open>
  C6. When the encoder's exit code is examined (the output file did not exist, the
  tagging tool was found, at least one header line was forwarded) and it is not zero, the
  call aborts if and only if the encoder's output text does not contain
  \<^verbatim>\<open>truncated\<close>; the abort is \<^verbatim>\<open>sys.exit(1)\<close>. When the text contains
  \<^verbatim>\<open>truncated\<close>, the output path is returned and every record this call added to the
  log, the truncation warning among them, is a warning.
\<close>

theorem encoder_exit_code:
  assumes "\<not> isfile s (bam2gff_output od gff bam)"
    and "which w ''tagBam''"
    and "r = relay lab (tagBam_stdout w (tagBam_cmd bam gff lab))"
    and "num_headers r \<noteq> 0"
    and "res = bam_communicate w (bam_cmd (bam2gff_output od gff bam)) (forwarded r)"
    and "returncode res \<noteq> 0"
  shows "((\<exists>e. fst (map_bam2gff_subproc w bam gff od lab s) = Inl e)
            \<longleftrightarrow> \<not> contains ''truncated'' (output_text res))
       \<and> (\<not> contains ''truncated'' (output_text res) \<longrightarrow>
            fst (map_bam2gff_subproc w bam gff od lab s) = Inl (SystemExit 1))
       \<and> (contains ''truncated'' (output_text res) \<longrightarrow>
            fst (map_bam2gff_subproc w bam gff od lab s) = Inr (bam2gff_output od gff bam)
          \<and> (\<exists>new. logged (snd (map_bam2gff_subproc w bam gff od lab s)) = logged s @ new
                 \<and> (WARNING, truncated_warning) \<in> set new
                 \<and> (\<forall>entry\<in>set new. fst entry = WARNING)))"
  using assms
  by (simp add: map_bam2gff_subproc_def Let_def isfile_def makedirs_def log_msg_def popen_def)


theorem encoder_exit_code_witness:
  "fst (map_bam2gff_subproc
          \<lparr>which = (\<lambda>prog. prog = ''tagBam''), make_dir = insert,
           tagBam_stdout = (\<lambda>cmd. [''@HD VN:1.0'']),
           tagBam_wait = (\<lambda>cmd. 0),
           bam_communicate = (\<lambda>cmd lines. \<lparr>returncode = 1, output_text = ''[main_samview] truncated file.'', wrote_file = True\<rparr>),
           read_bam = (\<lambda>f. Inr [])\<rparr>
          ''/data/s1.bam'' ''/g/exons.gff'' ''out'' ''gff''
          \<lparr>dirs = {}, files = {}, launched = [], logged = [], rpkm_files = Map.empty,
           compute_rpkm_calls = []\<rparr>) = Inr ''out/bam2gff_exons.gff/s1.bam''
   \<and> fst (map_bam2gff_subproc
          \<lparr>which = (\<lambda>prog. prog = ''tagBam''), make_dir = insert,
           tagBam_stdout = (\<lambda>cmd. [''@HD VN:1.0'']),
           tagBam_wait = (\<lambda>cmd. 0),
           bam_communicate = (\<lambda>cmd lines. \<lparr>returncode = 1, output_text = ''samtools: not found'', wrote_file = False\<rparr>),
           read_bam = (\<lambda>f. Inr [])\<rparr>
          ''/data/s1.bam'' ''/g/exons.gff'' ''out'' ''gff''
          \<lparr>dirs = {}, files = {}, launched = [], logged = [], rpkm_files = Map.empty,
           compute_rpkm_calls = []\<rparr>) = Inl (SystemExit 1)"
proof -
  let ?rt = "\<lparr>returncode = 1, output_text = ''[main_samview] truncated file.'', wrote_file = True\<rparr>"
  let ?rf = "\<lparr>returncode = 1, output_text = ''samtools: not found'', wrote_file = False\<rparr>"
  let ?wt = "\<lparr>which = (\<lambda>prog. prog = ''tagBam''), make_dir = insert,
           tagBam_stdout = (\<lambda>cmd. [''@HD VN:1.0'']),
           tagBam_wait = (\<lambda>cmd. 0),
           bam_communicate = (\<lambda>cmd lines. ?rt),
           read_bam = (\<lambda>f. Inr [])\<rparr>"
  let ?wf = "\<lparr>which = (\<lambda>prog. prog = ''tagBam''), make_dir = insert,
           tagBam_stdout = (\<lambda>cmd. [''@HD VN:1.0'']),
           tagBam_wait = (\<lambda>cmd. 0),
           bam_communicate = (\<lambda>cmd lines. ?rf),
           read_bam = (\<lambda>f. Inr [])\<rparr>"
  let ?s0 = "\<lparr>dirs = {}, files = {}, launched = [], logged = [], rpkm_files = Map.empty,
            compute_rpkm_calls = []\<rparr>"
  let ?r = "relay ''gff'' [''@HD VN:1.0'']"
  have out: "bam2gff_output ''out'' ''/g/exons.gff'' ''/data/s1.bam'' = ''out/bam2gff_exons.gff/s1.bam''"
    by (simp add: bam2gff_output_def bam2gff_dir_def path_join_def basename_def startswith_def)
  have a: "\<not> isfile ?s0 (bam2gff_output ''out'' ''/g/exons.gff'' ''/data/s1.bam'')"
    by (simp add: isfile_def)
  have bt: "which ?wt ''tagBam''" and bf: "which ?wf ''tagBam''" by simp_all
  have rt: "?r = relay ''gff'' (tagBam_stdout ?wt (tagBam_cmd ''/data/s1.bam'' ''/g/exons.gff'' ''gff''))"
    and rf: "?r = relay ''gff'' (tagBam_stdout ?wf (tagBam_cmd ''/data/s1.bam'' ''/g/exons.gff'' ''gff''))"
    by simp_all
  have h: "num_headers ?r \<noteq> 0"
    by (simp add: relay_def relay_line_def py_split_def startswith_def)
  have ct: "?rt = bam_communicate ?wt (bam_cmd (bam2gff_output ''out'' ''/g/exons.gff'' ''/data/s1.bam'')) (forwarded ?r)"
    and cf: "?rf = bam_communicate ?wf (bam_cmd (bam2gff_output ''out'' ''/g/exons.gff'' ''/data/s1.bam'')) (forwarded ?r)"
    by simp_all
  have nz: "returncode ?rt \<noteq> 0" "returncode ?rf \<noteq> 0" by simp_all
  have tr: "contains ''truncated'' (output_text ?rt)" "\<not> contains ''truncated'' (output_text ?rf)"
    by (simp_all add: startswith_def)
  note t = encoder_exit_code [OF a bt rt h ct nz(1)]
  note f = encoder_exit_code [OF a bf rf h cf nz(2)]
  have "fst (map_bam2gff_subproc ?wt ''/data/s1.bam'' ''/g/exons.gff'' ''out'' ''gff'' ?s0)
          = Inr (bam2gff_output ''out'' ''/g/exons.gff'' ''/data/s1.bam'')"
    by (rule t [THEN conjunct2, THEN conjunct2, THEN mp, OF tr(1), THEN conjunct1])
  then have 1: "fst (map_bam2gff_subproc ?wt ''/data/s1.bam'' ''/g/exons.gff'' ''out'' ''gff'' ?s0)
             = Inr ''out/bam2gff_exons.gff/s1.bam''" by (simp only: out)
  have 2: "fst (map_bam2gff_subproc ?wf ''/data/s1.bam'' ''/g/exons.gff'' ''out'' ''gff'' ?s0)
             = Inl (SystemExit 1)"
    by (rule f [THEN conjunct2, THEN conjunct1, THEN mp, OF tr(2)])
  from 1 2 show ?thesis by (rule conjI)
qed



subsection \<open>The driver\<close>

lemma log_msg_frame [simp]:
  "dirs (log_msg l m s) = dirs s" "files (log_msg l m s) = files s"
  "launched (log_msg l m s) = launched s" "rpkm_files (log_msg l m s) = rpkm_files s"
  "compute_rpkm_calls (log_msg l m s) = compute_rpkm_calls s"
  "isfile (log_msg l m s) p = isfile s p"
  by (simp_all add: log_msg_def isfile_def)

lemma map_bam2gff_subproc_trace:
  "compute_rpkm_calls (snd (map_bam2gff_subproc w bam gff od lab s)) = compute_rpkm_calls s
   \<and> rpkm_files (snd (map_bam2gff_subproc w bam gff od lab s)) = rpkm_files s"
  by (simp add: map_bam2gff_subproc_def Let_def makedirs_def popen_def)

lemma zero_mapped_loop:
  assumes "num_ribosub_mapped sm = 0"
  shows "compute_rpkm_calls (snd (output_rpkm_tables w sm od st tables cur s)) = compute_rpkm_calls s
       \<and> rpkm_files (snd (output_rpkm_tables w sm od st tables cur s)) = rpkm_files s
       \<and> (if all_present s od tables
          then fst (output_rpkm_tables w sm od st tables cur s)
                 = Inr (if tables = [] then cur else Some (rpkm_filename od (fst (last tables))))
          else \<exists>e. fst (output_rpkm_tables w sm od st tables cur s) = Inl e)"
proof (induction tables arbitrary: cur s)
  case Nil
  then show ?case by (simp add: all_present_def)
next
  case (Cons t tables)
  obtain table_name ce where t: "t = (table_name, ce)" by (cases t)
  show ?case
  proof (cases "isfile s (rpkm_filename od table_name)")
    case True
    let ?s = "log_msg INFO (''  - Skipping RPKM output, found '' @ rpkm_filename od table_name) s"
    have ap: "all_present ?s od tables = all_present s od tables"
      by (simp add: all_present_def)
    from Cons.IH [of "Some (rpkm_filename od table_name)" ?s] True t ap
    show ?thesis by (auto simp: all_present_def Let_def)
  next
    case False
    let ?s2 = "log_msg INFO (''Mapping BAM to GFF '' @ const_gff_filename ce)
                 (s\<lparr>dirs := make_dir w (path_join od ''bam2gff_const_exons'') (dirs s)\<rparr>)"
    let ?m = "map_bam2gff_subproc w (ribosub_bam_filename sm) (const_gff_filename ce)
                (path_join od ''bam2gff_const_exons'') ''gff'' ?s2"
    obtain r s3 where m: "?m = (r, s3)" by (cases ?m)
    from map_bam2gff_subproc_trace [of w "ribosub_bam_filename sm" "const_gff_filename ce"
        "path_join od ''bam2gff_const_exons''" "''gff''" ?s2] m
    have tr: "compute_rpkm_calls s3 = compute_rpkm_calls s" "rpkm_files s3 = rpkm_files s"
      by simp_all
    show ?thesis using False t m tr assms
      by (cases r) (simp_all add: all_present_def Let_def)
  qed
qed

text \<open>
  C7 (as amended). If the sample's mapped-read count is zero, \<open>output_rpkm\<close> never calls
  \<^verbatim>\<open>compute_rpkm\<close> and writes no RPKM table. It aborts, unless there is at least one
  table and the RPKM output file of every table already exists: then every table is
  skipped before the count is looked at, and the call returns the last file name.
\<close>

theorem zero_mapped_reads_no_rpkm:
  assumes "num_ribosub_mapped sm = 0"
  shows "compute_rpkm_calls (snd (output_rpkm w sm od st tables s)) = compute_rpkm_calls s
       \<and> rpkm_files (snd (output_rpkm w sm od st tables s)) = rpkm_files s
       \<and> (if tables \<noteq> [] \<and> all_present s od tables
          then fst (output_rpkm w sm od st tables s)
                 = Inr (rpkm_filename od (fst (last tables)))
          else \<exists>e. fst (output_rpkm w sm od st tables s) = Inl e)"
proof -
  let ?l = "output_rpkm_tables w sm od st tables None s"
  obtain r s' where l: "?l = (r, s')" by (cases ?l)
  have fr: "fst ?l = r" and sr: "snd ?l = s'" using l by simp_all
  note z = zero_mapped_loop [OF assms, of w od st tables None s, unfolded fr sr]
  from z have c: "compute_rpkm_calls s' = compute_rpkm_calls s"
    and f: "rpkm_files s' = rpkm_files s"
    and i: "if all_present s od tables
          then r = Inr (if tables = [] then None else Some (rpkm_filename od (fst (last tables))))
          else \<exists>e. r = Inl e"
    by blast+
  show ?thesis
  proof (cases "all_present s od tables")
    case True
    with i l c f show ?thesis by (auto simp: output_rpkm_def)
  next
    case False
    with i obtain e where "r = Inl e" by auto
    with l c f False show ?thesis by (auto simp: output_rpkm_def)
  qed
qed


theorem zero_mapped_reads_no_rpkm_witness:
  "compute_rpkm_calls (snd (output_rpkm
        \<lparr>which = (\<lambda>prog. prog = ''tagBam''), make_dir = insert,
        tagBam_stdout = (\<lambda>cmd. [''@HD VN:1.0'']), tagBam_wait = (\<lambda>cmd. 0),
        bam_communicate = (\<lambda>cmd lines. \<lparr>returncode = 0, output_text = [], wrote_file = True\<rparr>),
        read_bam = (\<lambda>f. Inr [])\<rparr>
        \<lparr>label = ''s1'', ribosub_bam_filename = ''/data/s1.bam'', num_ribosub_mapped = 0\<rparr> ''out'' [''readlen'' \<mapsto> ''36''] [(''ensGene'', \<lparr>const_gff_filename = ''/g/exons.gff'', genes_to_exons = [], exon_lens = Map.empty\<rparr>)]
        \<lparr>dirs = {''out''}, files = {}, launched = [], logged = [],
        rpkm_files = Map.empty, compute_rpkm_calls = []\<rparr>)) = []
   \<and> (\<exists>e. fst (output_rpkm
        \<lparr>which = (\<lambda>prog. prog = ''tagBam''), make_dir = insert,
        tagBam_stdout = (\<lambda>cmd. [''@HD VN:1.0'']), tagBam_wait = (\<lambda>cmd. 0),
        bam_communicate = (\<lambda>cmd lines. \<lparr>returncode = 0, output_text = [], wrote_file = True\<rparr>),
        read_bam = (\<lambda>f. Inr [])\<rparr>
        \<lparr>label = ''s1'', ribosub_bam_filename = ''/data/s1.bam'', num_ribosub_mapped = 0\<rparr> ''out'' [''readlen'' \<mapsto> ''36''] [(''ensGene'', \<lparr>const_gff_filename = ''/g/exons.gff'', genes_to_exons = [], exon_lens = Map.empty\<rparr>)]
        \<lparr>dirs = {''out''}, files = {}, launched = [], logged = [],
        rpkm_files = Map.empty, compute_rpkm_calls = []\<rparr>) = Inl e)"
proof -
  let ?w = "\<lparr>which = (\<lambda>prog. prog = ''tagBam''), make_dir = insert,
        tagBam_stdout = (\<lambda>cmd. [''@HD VN:1.0'']), tagBam_wait = (\<lambda>cmd. 0),
        bam_communicate = (\<lambda>cmd lines. \<lparr>returncode = 0, output_text = [], wrote_file = True\<rparr>),
        read_bam = (\<lambda>f. Inr [])\<rparr>"
  let ?sm = "\<lparr>label = ''s1'', ribosub_bam_filename = ''/data/s1.bam'', num_ribosub_mapped = 0\<rparr>"
  let ?tables = "[(''ensGene'', \<lparr>const_gff_filename = ''/g/exons.gff'', genes_to_exons = [], exon_lens = Map.empty\<rparr>)]"
  let ?s0 = "\<lparr>dirs = {''out''}, files = {}, launched = [], logged = [],
        rpkm_files = Map.empty, compute_rpkm_calls = []\<rparr>"
  have z: "num_ribosub_mapped ?sm = 0" by simp
  have na: "\<not> (?tables \<noteq> [] \<and> all_present ?s0 ''out'' ?tables)"
    by (simp add: all_present_def isfile_def)
  note t = zero_mapped_reads_no_rpkm [OF z, of ?w "''out''" "[''readlen'' \<mapsto> ''36'']" ?tables ?s0]
  have c: "compute_rpkm_calls (snd (output_rpkm ?w ?sm ''out'' [''readlen'' \<mapsto> ''36''] ?tables ?s0))
             = compute_rpkm_calls ?s0"
    by (rule t [THEN conjunct1])
  have e: "\<exists>e. fst (output_rpkm ?w ?sm ''out'' [''readlen'' \<mapsto> ''36''] ?tables ?s0) = Inl e"
    using t [THEN conjunct2, THEN conjunct2] na by (simp only: if_False)
  from c have c0: "compute_rpkm_calls (snd (output_rpkm ?w ?sm ''out'' [''readlen'' \<mapsto> ''36''] ?tables ?s0)) = []"
    by simp
  show ?thesis by (rule conjI [OF c0 e])
qed

text \<open>
  C7 as stated fails: with a mapped-read count of zero and the only table's RPKM file
  already present, \<open>output_rpkm\<close> returns that file's name instead of aborting.
\<close>

theorem zero_mapped_reads_returns_counterexample:
  "num_ribosub_mapped \<lparr>label = ''s1'', ribosub_bam_filename = ''/data/s1.bam'', num_ribosub_mapped = 0\<rparr> = 0
   \<and> fst (output_rpkm
        \<lparr>which = (\<lambda>prog. prog = ''tagBam''), make_dir = insert,
        tagBam_stdout = (\<lambda>cmd. [''@HD VN:1.0'']), tagBam_wait = (\<lambda>cmd. 0),
        bam_communicate = (\<lambda>cmd lines. \<lparr>returncode = 0, output_text = [], wrote_file = True\<rparr>),
        read_bam = (\<lambda>f. Inr [])\<rparr>
        \<lparr>label = ''s1'', ribosub_bam_filename = ''/data/s1.bam'', num_ribosub_mapped = 0\<rparr> ''out'' [''readlen'' \<mapsto> ''36''] [(''ensGene'', \<lparr>const_gff_filename = ''/g/exons.gff'', genes_to_exons = [], exon_lens = Map.empty\<rparr>)]
        \<lparr>dirs = {''out''}, files = {''out/ensGene.rpkm''}, launched = [], logged = [],
        rpkm_files = Map.empty, compute_rpkm_calls = []\<rparr>) = Inr ''out/ensGene.rpkm''"
  by (simp add: output_rpkm_def rpkm_filename_def path_join_def startswith_def isfile_def
      Let_def)

end
